theory Spec2Isabelle
  imports Main
begin

section \<open>JavaScript values\<close>

text \<open>
  The module \<^verbatim>\<open>src/lib/teact/teactn.tsx\<close> compares the global state by reference
  (\<^verbatim>\<open>newGlobal !== currentGlobal\<close>), tests values for truthiness and reads
  \<^verbatim>\<open>typeof\<close>. A value is therefore a primitive, a function, or an object that
  carries its identity together with its own enumerable fields. Objects are immutable
  snapshots: the module never writes a field of a state or props object, it only
  replaces whole objects. \<open>CopyRef\<close> identities are the ones the module allocates itself
  (the spread copy of \<^verbatim>\<open>getUntypedGlobal\<close> in a DEBUG build); all other objects
  carry a \<open>UserRef\<close>.
\<close>

datatype ref = UserRef nat | CopyRef nat

datatype jsval =
    JUndefined
  | JNull
  | JBool bool
  | JNum int
  | JNaN
  | JStr string
  | JFun nat
  | JObj ref "(string \<times> jsval) list"

type_synonym props = "(string \<times> jsval) list"

datatype jstype = TUndefined | TObject | TBoolean | TNumber | TString | TFunction

text \<open>\<^verbatim>\<open>typeof v\<close>; note \<^verbatim>\<open>typeof null === 'object'\<close>.\<close>

fun typeof :: "jsval \<Rightarrow> jstype" where
  "typeof JUndefined = TUndefined"
| "typeof JNull = TObject"
| "typeof (JBool b) = TBoolean"
| "typeof (JNum n) = TNumber"
| "typeof JNaN = TNumber"
| "typeof (JStr s) = TString"
| "typeof (JFun f) = TFunction"
| "typeof (JObj r fs) = TObject"

text \<open>Truthiness, as \<^verbatim>\<open>!v\<close>, \<^verbatim>\<open>&&\<close> and \<^verbatim>\<open>if (v)\<close> read it.\<close>

fun truthy :: "jsval \<Rightarrow> bool" where
  "truthy JUndefined = False"
| "truthy JNull = False"
| "truthy (JBool b) = b"
| "truthy (JNum n) = (n \<noteq> 0)"
| "truthy JNaN = False"
| "truthy (JStr s) = (s \<noteq> [])"
| "truthy (JFun f) = True"
| "truthy (JObj r fs) = True"

text \<open>\<^verbatim>\<open>a === b\<close>: objects by identity, \<^verbatim>\<open>NaN\<close> equal to nothing.\<close>

fun strictEq :: "jsval \<Rightarrow> jsval \<Rightarrow> bool" where
  "strictEq (JObj r fs) (JObj r' fs') = (r = r')"
| "strictEq JNaN b = False"
| "strictEq a b = (a = b)"

text \<open>
  Own fields of an object. A field list stands for the object whose keys are the keys
  of the list; the first entry of a key is the one that is read.
\<close>

fun getField :: "props \<Rightarrow> string \<Rightarrow> jsval" where
  "getField [] k = JUndefined"
| "getField ((k', v) # fs) k = (if k' = k then v else getField fs k)"

definition objectKeys :: "props \<Rightarrow> string list" where
  "objectKeys fs = remdups (map fst fs)"

fun setField :: "string \<Rightarrow> jsval \<Rightarrow> props \<Rightarrow> props" where
  "setField k v [] = [(k, v)]"
| "setField k v ((k', v') # fs) =
     (if k' = k then (k, v) # fs else (k', v') # setField k v fs)"

text \<open>What \<^verbatim>\<open>{...v}\<close> copies: the own fields of an object, nothing of \<^verbatim>\<open>null\<close> or a number.\<close>

fun spread :: "jsval \<Rightarrow> props" where
  "spread (JObj r fs) = fs"
| "spread v = []"

datatype exn = TypeError | OutdatedGlobal | Thrown jsval

text \<open>\<^verbatim>\<open>v.k\<close> for the two keys the module reads, \<^verbatim>\<open>then\<close> and \<^verbatim>\<open>DEBUG_randomId\<close>: a
  \<^verbatim>\<open>TypeError\<close> on \<^verbatim>\<open>null\<close> and \<^verbatim>\<open>undefined\<close>, the field of an object, and \<^verbatim>\<open>undefined\<close> on
  the values that have no such field.\<close>

fun getProp :: "jsval \<Rightarrow> string \<Rightarrow> exn + jsval" where
  "getProp JUndefined k = Inl TypeError"
| "getProp JNull k = Inl TypeError"
| "getProp (JObj r fs) k = Inr (getField fs k)"
| "getProp v k = Inr JUndefined"

section \<open>The module state\<close>

text \<open>\<^verbatim>\<open>interface ActionOptions\<close>; an absent flag reads as \<^verbatim>\<open>undefined\<close>, which is all the
  module tests, so each flag is a boolean.\<close>

record ActionOptions =
  opt_forceOnHeavyAnimation :: bool
  opt_forceSyncOnIOs :: bool
  opt_forceOutdated :: bool

text \<open>\<^verbatim>\<open>options?.flag\<close> for \<^verbatim>\<open>options?: ActionOptions\<close>.\<close>

fun optional :: "(ActionOptions \<Rightarrow> bool) \<Rightarrow> ActionOptions option \<Rightarrow> bool" where
  "optional flag None = False"
| "optional flag (Some opts) = flag opts"

text \<open>
  User code is supplied from outside the module. A mapper returns props or throws. An
  activation function is a resumption: it may call \<^verbatim>\<open>stickToFirst\<close> with a value, read
  the answer and go on, and it ends by returning a value or throwing.
\<close>

type_synonym MapStateToProps = "jsval \<Rightarrow> props \<Rightarrow> exn + props"

datatype activation =
    ActReturn jsval
  | ActThrow exn
  | ActStick jsval "jsval \<Rightarrow> activation"

type_synonym ActivationFn = "jsval \<Rightarrow> props \<Rightarrow> activation"

text \<open>\<^verbatim>\<open>interface Container\<close>. \<open>forceUpdate\<close> is the token of the subscriber's callback; an
  absent \<^verbatim>\<open>stuckTo\<close> is \<open>JUndefined\<close>, an absent \<^verbatim>\<open>mappedProps\<close> is \<open>None\<close>.\<close>

record Container =
  mapStateToProps :: MapStateToProps
  activationFn :: "ActivationFn option"
  stuckTo :: jsval
  ownProps :: props
  mappedProps :: "props option"
  forceUpdate :: nat
  DEBUG_updates :: nat
  DEBUG_componentName :: string

text \<open>
  A handler is called with the global state and the payload. What it does before it
  returns is a finite sequence of calls into the module, then a returned value or a
  throw. (A handler does not catch what a call of its own throws.)
\<close>

datatype call =
    CallAction string jsval "ActionOptions option"
  | CallSetGlobal jsval "ActionOptions option"
  | CallGetGlobal

datatype ending = Return jsval | Throw exn

type_synonym ActionHandler = "jsval \<Rightarrow> jsval \<Rightarrow> call list \<times> ending"

text \<open>The entries of \<^verbatim>\<open>callbacks\<close>: the module's own pass, or a function given to
  \<^verbatim>\<open>addCallback\<close>.\<close>

datatype callback = UpdateContainers | External nat

text \<open>The two functions the module wraps in \<^verbatim>\<open>throttleWithTickEnd\<close>.\<close>

datatype throttled = RunCallbacks | DEBUG_invalidateGlobal

text \<open>
  The history records every call that crosses the module's boundary: an action entry
  point being called, and the module calling a handler, a mapper, a subscriber's
  \<^verbatim>\<open>forceUpdate\<close>, \<^verbatim>\<open>handleError\<close> or a registered callback. No operation reads it.
\<close>

datatype event =
    Dispatched string jsval "ActionOptions option"
  | HandlerCalled string nat jsval jsval
  | MapperCalled string jsval
  | Notified nat
  | Reported exn
  | CallbackCalled nat jsval

text \<open>
  The module-level variables, by their names in the source, then the state of the
  collaborators the module imports from other files:
  \<^item> \<open>DEBUG\<close>, the build constant of \<^verbatim>\<open>config\<close>, never written;
  \<^item> \<open>tickEndQueue\<close>, the throttled functions waiting for the end of the tick;
  \<^item> \<open>isHeavyAnimating\<close> and \<open>onceIdle\<close>, the heavy-animation gate and the callbacks
    registered with \<^verbatim>\<open>getIsHeavyAnimating.once\<close>;
  \<^item> \<open>randoms\<close> and \<open>drawn\<close>, the values \<^verbatim>\<open>Math.random()\<close> returns and how many were taken;
  \<^item> \<open>copies\<close>, how many objects the module has allocated;
  \<^item> \<open>history\<close>, the boundary calls so far.
\<close>

record teactn =
  DEBUG :: bool
  currentGlobal :: jsval
  DEBUG_currentRandomId :: jsval
  actionHandlers :: "string \<Rightarrow> ActionHandler list option"
  callbacks :: "callback list"
  containers :: "(string \<times> Container) list"
  forceOnHeavyAnimation :: bool
  actionQueue :: "(string \<times> jsval \<times> ActionOptions option) list"
  tickEndQueue :: "throttled list"
  isHeavyAnimating :: bool
  onceIdle :: "throttled list"
  randoms :: "nat \<Rightarrow> int"
  drawn :: nat
  copies :: nat
  history :: "event list"

text \<open>The state when the module has been loaded (lines 53-71 and 132).\<close>

definition initial :: "bool \<Rightarrow> (nat \<Rightarrow> int) \<Rightarrow> teactn" where
  "initial debug rnd =
     \<lparr> DEBUG = debug,
       currentGlobal = JObj (UserRef 0) [(''isInited'', JBool False)],
       DEBUG_currentRandomId = JUndefined,
       actionHandlers = (\<lambda>name. None),
       callbacks = [UpdateContainers],
       containers = [],
       forceOnHeavyAnimation = True,
       actionQueue = [],
       tickEndQueue = [],
       isHeavyAnimating = False,
       onceIdle = [],
       randoms = rnd,
       drawn = 0,
       copies = 0,
       history = [] \<rparr>"

text \<open>An operation ends normally or by a throw; the state it has reached stays either way.\<close>

datatype 'a outcome = Done 'a | Threw exn 'a

fun stateOf :: "'a outcome \<Rightarrow> 'a" where
  "stateOf (Done s) = s"
| "stateOf (Threw e s) = s"

definition record_event :: "event \<Rightarrow> teactn \<Rightarrow> teactn" where
  "record_event ev s = s\<lparr> history := history s @ [ev] \<rparr>"

text \<open>\<^verbatim>\<open>Math.random()\<close>.\<close>

definition mathRandom :: "teactn \<Rightarrow> jsval \<times> teactn" where
  "mathRandom s = (JNum (randoms s (drawn s)), s\<lparr> drawn := Suc (drawn s) \<rparr>)"

section \<open>Collaborators\<close>

text \<open>
  Modelled from the spec: \<^verbatim>\<open>throttleWithTickEnd\<close> of \<^verbatim>\<open>util/schedulers\<close> is not among
  the sources. "Coalesces multiple calls within one scheduling tick into a single pass: if
  called N times before the tick ends, the pass body runs exactly once, after all N
  calls, using the state as of that moment." A call of the throttled function puts it
  on the tick-end queue unless it already waits there.
\<close>

definition throttleWithTickEnd :: "throttled \<Rightarrow> teactn \<Rightarrow> teactn" where
  "throttleWithTickEnd fn s =
     (if fn \<in> set (tickEndQueue s) then s
      else s\<lparr> tickEndQueue := tickEndQueue s @ [fn] \<rparr>)"

text \<open>
  Modelled from the spec: \<^verbatim>\<open>getIsHeavyAnimating\<close> of \<^verbatim>\<open>teact\<close> is not among the sources.
  "\<^verbatim>\<open>isBusy() -> bool\<close>, \<^verbatim>\<open>onceIdle(callback)\<close> registers \<^verbatim>\<open>callback\<close> to fire exactly once the
  next time the gate transitions to idle."
\<close>

definition getIsHeavyAnimating :: "teactn \<Rightarrow> bool" where
  "getIsHeavyAnimating s = isHeavyAnimating s"

definition getIsHeavyAnimating_once :: "throttled \<Rightarrow> teactn \<Rightarrow> teactn" where
  "getIsHeavyAnimating_once fn s = s\<lparr> onceIdle := onceIdle s @ [fn] \<rparr>"

text \<open>
  Modelled from the spec: \<^verbatim>\<open>arePropsShallowEqual\<close> of \<^verbatim>\<open>util/arePropsShallowEqual\<close> is not
  among the sources. "Shallow compare, all enumerable fields": the two objects have the same
  keys and, under every key, values that are \<^verbatim>\<open>===\<close>.
\<close>

definition arePropsShallowEqual :: "props \<Rightarrow> props \<Rightarrow> bool" where
  "arePropsShallowEqual currentProps newProps =
     (list_all (\<lambda>k. k \<in> set (objectKeys newProps)) (objectKeys currentProps) \<and>
      list_all (\<lambda>k. k \<in> set (objectKeys currentProps)) (objectKeys newProps) \<and>
      list_all (\<lambda>k. strictEq (getField currentProps k) (getField newProps k))
        (objectKeys currentProps))"

text \<open>
  Modelled from the spec: \<^verbatim>\<open>handleError\<close> of \<^verbatim>\<open>util/handleError\<close> is not among the sources.
  "\<^verbatim>\<open>reportError(error)\<close> must not propagate the throw further up": the report is a
  boundary call and nothing else.
\<close>

definition handleError :: "exn \<Rightarrow> event" where
  "handleError err = Reported err"

section \<open>Activation: \<^verbatim>\<open>activateContainer\<close> (lines 293-306)\<close>

text \<open>
  The closure handed to the activation function. Its first argument is the \<^verbatim>\<open>stuckTo\<close>
  that \<^verbatim>\<open>activateContainer\<close> destructured from the container on entry: the closure
  tests that captured value and writes \<^verbatim>\<open>container.stuckTo\<close>. \<^verbatim>\<open>a && b\<close> is \<^verbatim>\<open>a\<close> when
  \<^verbatim>\<open>a\<close> is falsy.
\<close>

definition stickToFirst :: "jsval \<Rightarrow> jsval \<Rightarrow> Container \<Rightarrow> jsval \<times> Container" where
  "stickToFirst captured stickTo container =
     (let container' =
        (if truthy stickTo \<and> \<not> truthy captured then container\<lparr> stuckTo := stickTo \<rparr>
         else container)
      in (if truthy stickTo then JBool (\<not> truthy captured \<or> strictEq captured stickTo)
          else stickTo,
          container'))"

primrec runActivation ::
  "activation \<Rightarrow> jsval \<Rightarrow> Container \<Rightarrow> (exn + jsval) \<times> Container" where
  "runActivation (ActReturn v) = (\<lambda>captured container. (Inr v, container))"
| "runActivation (ActThrow e) = (\<lambda>captured container. (Inl e, container))"
| "runActivation (ActStick stickTo k) = (\<lambda>captured container.
     case stickToFirst captured stickTo container of
       (answer, container') \<Rightarrow> runActivation (k answer) captured container')"

definition activateContainer ::
  "Container \<Rightarrow> jsval \<Rightarrow> props \<Rightarrow> (exn + jsval) \<times> Container" where
  "activateContainer container global props =
     (case activationFn container of
        None \<Rightarrow> (Inr (JBool True), container)
      | Some fn \<Rightarrow> runActivation (fn global props) (stuckTo container) container)"

section \<open>The recompute pass: \<^verbatim>\<open>updateContainers\<close> (lines 159-219)\<close>

text \<open>
  One turn of the loop body for the container under \<open>key\<close>. \<open>Visited\<close>: the loop goes on
  (also after \<^verbatim>\<open>continue\<close>). \<open>Returned\<close>: the mapper threw, \<^verbatim>\<open>handleError(err); return\<close>.
  \<open>Raised\<close>: an exception nothing in the pass catches, thrown by the activation function
  or by the comparison when \<^verbatim>\<open>mappedProps\<close>, asserted with \<^verbatim>\<open>!\<close>, is \<^verbatim>\<open>undefined\<close> and its
  fields cannot be enumerated. The DEBUG branches of the pass only time it and write to
  the console; they are left out.
\<close>

datatype visit =
    Visited Container "event list"
  | Returned Container "event list"
  | Raised exn Container "event list"

definition visitContainer :: "jsval \<Rightarrow> string \<Rightarrow> Container \<Rightarrow> visit" where
  "visitContainer global key container =
     (case activateContainer container global (ownProps container) of
        (Inl e, c) \<Rightarrow> Raised e c []
      | (Inr active, c) \<Rightarrow>
          if \<not> truthy active then Visited c []
          else
            (case mapStateToProps container global (ownProps container) of
               Inl err \<Rightarrow> Returned c [MapperCalled key global, handleError err]
             | Inr newMappedProps \<Rightarrow>
                 if objectKeys newMappedProps \<noteq> [] then
                   (case mappedProps container of
                      None \<Rightarrow> Raised TypeError c [MapperCalled key global]
                    | Some oldMappedProps \<Rightarrow>
                        if \<not> arePropsShallowEqual oldMappedProps newMappedProps then
                          Visited
                            (c\<lparr> mappedProps := Some newMappedProps,
                                DEBUG_updates := Suc (DEBUG_updates c) \<rparr>)
                            [MapperCalled key global, Notified (forceUpdate container)]
                        else Visited c [MapperCalled key global])
                 else Visited c [MapperCalled key global]))"

text \<open>\<^verbatim>\<open>for (const container of containers.values())\<close>: the containers after the events
  of the pass, and the exception that ended it, if one did.\<close>

fun updateLoop ::
  "jsval \<Rightarrow> (string \<times> Container) list \<Rightarrow>
     (string \<times> Container) list \<times> event list \<times> exn option" where
  "updateLoop global [] = ([], [], None)"
| "updateLoop global ((key, container) # rest) =
     (case visitContainer global key container of
        Visited c evs \<Rightarrow>
          (case updateLoop global rest of
             (cs, evs', raised) \<Rightarrow> ((key, c) # cs, evs @ evs', raised))
      | Returned c evs \<Rightarrow> ((key, c) # rest, evs, None)
      | Raised e c evs \<Rightarrow> ((key, c) # rest, evs, Some e))"

definition updateContainers :: "teactn \<Rightarrow> teactn outcome" where
  "updateContainers s =
     (case updateLoop (currentGlobal s) (containers s) of
        (cs, evs, raised) \<Rightarrow>
          (let s' = s\<lparr> containers := cs, history := history s @ evs \<rparr>
           in case raised of None \<Rightarrow> Done s' | Some e \<Rightarrow> Threw e s'))"

section \<open>The state cell and the scheduler (lines 69-130)\<close>

fun callCallback :: "callback \<Rightarrow> teactn \<Rightarrow> teactn outcome" where
  "callCallback UpdateContainers s = updateContainers s"
| "callCallback (External n) s = Done (record_event (CallbackCalled n (currentGlobal s)) s)"

text \<open>\<^verbatim>\<open>callbacks.forEach((cb) => cb(currentGlobal))\<close>.\<close>

fun forEachCallback :: "callback list \<Rightarrow> teactn \<Rightarrow> teactn outcome" where
  "forEachCallback [] s = Done s"
| "forEachCallback (cb # cbs) s =
     (case callCallback cb s of
        Done s' \<Rightarrow> forEachCallback cbs s'
      | Threw e s' \<Rightarrow> Threw e s')"

definition runCallbacksThrottled :: "teactn \<Rightarrow> teactn" where
  "runCallbacksThrottled s = throttleWithTickEnd RunCallbacks s"

definition DEBUG_invalidateGlobalOnTickEnd :: "teactn \<Rightarrow> teactn" where
  "DEBUG_invalidateGlobalOnTickEnd s = throttleWithTickEnd DEBUG_invalidateGlobal s"

definition runCallbacks :: "teactn \<Rightarrow> teactn outcome" where
  "runCallbacks s =
     (if forceOnHeavyAnimation s then
        forEachCallback (callbacks s) (s\<lparr> forceOnHeavyAnimation := False \<rparr>)
      else if getIsHeavyAnimating s then
        Done (getIsHeavyAnimating_once RunCallbacks s)
      else forEachCallback (callbacks s) s)"

text \<open>The DEBUG block of \<^verbatim>\<open>setUntypedGlobal\<close> (lines 86-95).\<close>

definition DEBUG_setGlobal :: "jsval \<Rightarrow> ActionOptions option \<Rightarrow> teactn \<Rightarrow> teactn outcome" where
  "DEBUG_setGlobal newGlobal options s =
     (let proceed = (case mathRandom s of (r, s') \<Rightarrow> Done (s'\<lparr> DEBUG_currentRandomId := r \<rparr>))
      in if optional opt_forceOutdated options then proceed
         else
           (case getProp newGlobal ''DEBUG_randomId'' of
              Inl e \<Rightarrow> Threw e s
            | Inr randomId \<Rightarrow>
                if truthy randomId \<and> \<not> strictEq randomId (DEBUG_currentRandomId s)
                then Threw OutdatedGlobal s
                else proceed))"

definition setUntypedGlobal :: "jsval \<Rightarrow> ActionOptions option \<Rightarrow> teactn \<Rightarrow> teactn outcome" where
  "setUntypedGlobal newGlobal options s =
     (if typeof newGlobal = TObject \<and> \<not> strictEq newGlobal (currentGlobal s) then
        (case (if DEBUG s then DEBUG_setGlobal newGlobal options s else Done s) of
           Threw e s1 \<Rightarrow> Threw e s1
         | Done s1 \<Rightarrow>
             (let s2 = s1\<lparr> currentGlobal := newGlobal \<rparr>
              in if optional opt_forceSyncOnIOs options then
                   runCallbacks (s2\<lparr> forceOnHeavyAnimation := True \<rparr>)
                 else
                   Done (runCallbacksThrottled
                     (if optional opt_forceOnHeavyAnimation options
                      then s2\<lparr> forceOnHeavyAnimation := True \<rparr> else s2))))
      else Done s)"

definition getUntypedGlobal :: "teactn \<Rightarrow> jsval \<times> teactn" where
  "getUntypedGlobal s =
     (if DEBUG s then
        (let copy = JObj (CopyRef (copies s))
               (setField ''DEBUG_randomId'' (DEBUG_currentRandomId s) (spread (currentGlobal s)));
             s' = DEBUG_invalidateGlobalOnTickEnd
               (s\<lparr> currentGlobal := copy, copies := Suc (copies s) \<rparr>)
         in (copy, s'))
      else (currentGlobal s, s))"

definition forceOnHeavyAnimationOnce :: "teactn \<Rightarrow> teactn" where
  "forceOnHeavyAnimationOnce s = s\<lparr> forceOnHeavyAnimation := True \<rparr>"

definition addCallback :: "callback \<Rightarrow> teactn \<Rightarrow> teactn" where
  "addCallback cb s = s\<lparr> callbacks := callbacks s @ [cb] \<rparr>"

definition removeCallback :: "callback \<Rightarrow> teactn \<Rightarrow> teactn" where
  "removeCallback cb s = s\<lparr> callbacks := remove1 cb (callbacks s) \<rparr>"

section \<open>What the environment does\<close>

text \<open>The end of a tick: the throttled functions that wait run once each, in the order
  in which they were first called.\<close>

fun runThrottled :: "throttled \<Rightarrow> teactn \<Rightarrow> teactn outcome" where
  "runThrottled RunCallbacks s = runCallbacks s"
| "runThrottled DEBUG_invalidateGlobal s =
     (case mathRandom s of (r, s') \<Rightarrow> Done (s'\<lparr> DEBUG_currentRandomId := r \<rparr>))"

fun forEachThrottled :: "throttled list \<Rightarrow> teactn \<Rightarrow> teactn outcome" where
  "forEachThrottled [] s = Done s"
| "forEachThrottled (fn # fns) s =
     (case runThrottled fn s of
        Done s' \<Rightarrow> forEachThrottled fns s'
      | Threw e s' \<Rightarrow> Threw e s')"

definition tickEnd :: "teactn \<Rightarrow> teactn outcome" where
  "tickEnd s = forEachThrottled (tickEndQueue s) (s\<lparr> tickEndQueue := [] \<rparr>)"

text \<open>The animation subsystem becomes busy, and becomes idle: each callback registered
  with \<^verbatim>\<open>once\<close> is called, once.\<close>

definition beginHeavyAnimation :: "teactn \<Rightarrow> teactn" where
  "beginHeavyAnimation s = s\<lparr> isHeavyAnimating := True \<rparr>"

definition endHeavyAnimation :: "teactn \<Rightarrow> teactn" where
  "endHeavyAnimation s =
     fold throttleWithTickEnd (onceIdle s) (s\<lparr> isHeavyAnimating := False, onceIdle := [] \<rparr>)"

section \<open>The action dispatcher (lines 132-157 and 221-231)\<close>

text \<open>\<^verbatim>\<open>typeof response.then === 'function'\<close>, for a truthy \<^verbatim>\<open>response\<close>.\<close>

definition isThenable :: "jsval \<Rightarrow> bool" where
  "isThenable response =
     (case getProp response ''then'' of Inl e \<Rightarrow> False | Inr f \<Rightarrow> typeof f = TFunction)"

text \<open>
  \<^verbatim>\<open>handleAction\<close> pushes a closure and, when it is the only one, drains the queue; the
  closure calls each handler of the name; a handler may call the module back, and so
  call \<^verbatim>\<open>handleAction\<close> again. The \<^verbatim>\<open>while\<close> loop need not end (a handler may dispatch its
  own action for ever), so the four functions take fuel, used up by the turns of the
  loop, and \<open>None\<close> is a run that is still going when the fuel is gone.

  A queued closure is determined by the name, the payload and the options it closes
  over. \<open>forEachHandler\<close> is the body of \<^verbatim>\<open>actionHandlers[name]?.forEach\<close>, from the
  handler of index \<open>i\<close> on. Calling \<^verbatim>\<open>actions[name]\<close> for a name without handlers is a
  \<^verbatim>\<open>TypeError\<close>: the entry point is created with the first handler.
\<close>

fun handleAction ::
    "nat \<Rightarrow> string \<Rightarrow> jsval \<Rightarrow> ActionOptions option \<Rightarrow> teactn \<Rightarrow> teactn outcome option"
  and drain :: "nat \<Rightarrow> teactn \<Rightarrow> teactn outcome option"
  and forEachHandler ::
    "nat \<Rightarrow> string \<Rightarrow> jsval \<Rightarrow> ActionOptions option \<Rightarrow> nat \<Rightarrow> ActionHandler list \<Rightarrow>
       teactn \<Rightarrow> teactn outcome option"
  and runCalls :: "nat \<Rightarrow> call list \<Rightarrow> teactn \<Rightarrow> teactn outcome option"
where
  "handleAction fuel name payload options s =
     (let s1 = record_event (Dispatched name payload options)
                 (s\<lparr> actionQueue := actionQueue s @ [(name, payload, options)] \<rparr>)
      in if length (actionQueue s1) = 1 then
           (case drain fuel s1 of
              None \<Rightarrow> None
            | Some (Done s2) \<Rightarrow> Some (Done (s2\<lparr> actionQueue := [] \<rparr>))
            | Some (Threw e s2) \<Rightarrow> Some (Threw e (s2\<lparr> actionQueue := [] \<rparr>)))
         else Some (Done s1))"
| "drain 0 s = None"
| "drain (Suc fuel) s =
     (case actionQueue s of
        [] \<Rightarrow> Some (Done s)
      | (name, payload, options) # queued \<Rightarrow>
          (case forEachHandler fuel name payload options 0
                  (case actionHandlers s name of None \<Rightarrow> [] | Some handlers \<Rightarrow> handlers) s of
             None \<Rightarrow> None
           | Some (Threw e s') \<Rightarrow> Some (Threw e s')
           | Some (Done s') \<Rightarrow> drain fuel (s'\<lparr> actionQueue := tl (actionQueue s') \<rparr>)))"
| "forEachHandler fuel name payload options i [] s = Some (Done s)"
| "forEachHandler fuel name payload options i (handler # handlers) s =
     (case (if DEBUG s then getUntypedGlobal s else (currentGlobal s, s)) of
        (global, s0) \<Rightarrow>
          (case runCalls fuel (fst (handler global payload))
                  (record_event (HandlerCalled name i global payload) s0) of
             None \<Rightarrow> None
           | Some (Threw e s1) \<Rightarrow> Some (Threw e s1)
           | Some (Done s1) \<Rightarrow>
               (case snd (handler global payload) of
                  Throw e \<Rightarrow> Some (Threw e s1)
                | Return response \<Rightarrow>
                    if \<not> truthy response \<or> isThenable response then
                      forEachHandler fuel name payload options (Suc i) handlers s1
                    else
                      (case setUntypedGlobal response options s1 of
                         Threw e s2 \<Rightarrow> Some (Threw e s2)
                       | Done s2 \<Rightarrow>
                           forEachHandler fuel name payload options (Suc i) handlers s2))))"
| "runCalls fuel [] s = Some (Done s)"
| "runCalls fuel (CallAction name payload options # calls) s =
     (if actionHandlers s name = None then Some (Threw TypeError s)
      else
        (case handleAction fuel name payload options s of
           None \<Rightarrow> None
         | Some (Threw e s') \<Rightarrow> Some (Threw e s')
         | Some (Done s') \<Rightarrow> runCalls fuel calls s'))"
| "runCalls fuel (CallSetGlobal newGlobal options # calls) s =
     (case setUntypedGlobal newGlobal options s of
        Threw e s' \<Rightarrow> Some (Threw e s')
      | Done s' \<Rightarrow> runCalls fuel calls s')"
| "runCalls fuel (CallGetGlobal # calls) s = runCalls fuel calls (snd (getUntypedGlobal s))"

text \<open>The entry point \<^verbatim>\<open>actions[name]\<close>, as code outside a handler calls it.\<close>

definition dispatch ::
  "nat \<Rightarrow> string \<Rightarrow> jsval \<Rightarrow> ActionOptions option \<Rightarrow> teactn \<Rightarrow> teactn outcome option" where
  "dispatch fuel name payload options s =
     (if actionHandlers s name = None then Some (Threw TypeError s)
      else handleAction fuel name payload options s)"

definition addUntypedActionHandler :: "string \<Rightarrow> ActionHandler \<Rightarrow> teactn \<Rightarrow> teactn" where
  "addUntypedActionHandler name handler s =
     (let handlers = (case actionHandlers s name of None \<Rightarrow> [] | Some hs \<Rightarrow> hs)
      in s\<lparr> actionHandlers := (actionHandlers s)(name \<mapsto> handlers @ [handler]) \<rparr>)"

section \<open>Subscribers: \<^verbatim>\<open>withUntypedGlobal\<close> (lines 244-291)\<close>

text \<open>\<^verbatim>\<open>containers.set(id, container)\<close>, and a write to a field of the container stored
  under \<open>key\<close>: a \<^verbatim>\<open>Map\<close> keeps a key at the place where it was first set.\<close>

fun putContainer ::
  "string \<Rightarrow> Container \<Rightarrow> (string \<times> Container) list \<Rightarrow> (string \<times> Container) list" where
  "putContainer key c [] = [(key, c)]"
| "putContainer key c ((k, c') # cs) =
     (if k = key then (key, c) # cs else (k, c') # putContainer key c cs)"

text \<open>
  One render of \<^verbatim>\<open>TeactNContainer\<close> for the subscriber with the unique id \<open>key\<close> and the
  \<^verbatim>\<open>forceUpdate\<close> token \<open>notify\<close>, with the \<open>mapper\<close> and \<open>activation\<close> that
  \<^verbatim>\<open>withUntypedGlobal\<close> closed over. What the component renders is outside the module.
\<close>

definition TeactNContainer ::
  "MapStateToProps \<Rightarrow> ActivationFn option \<Rightarrow> string \<Rightarrow> string \<Rightarrow> nat \<Rightarrow> props \<Rightarrow>
     teactn \<Rightarrow> teactn outcome" where
  "TeactNContainer mapper activation componentName key notify props s =
     (let container =
        (case map_of (containers s) key of
           Some c \<Rightarrow> c
         | None \<Rightarrow>
             \<lparr> mapStateToProps = mapper, activationFn = activation, stuckTo = JUndefined,
               ownProps = props, mappedProps = None, forceUpdate = notify,
               DEBUG_updates = 0, DEBUG_componentName = componentName \<rparr>)
      in case (case mappedProps container of
                 None \<Rightarrow> (Inr True, container)
               | Some mapped \<Rightarrow>
                   if arePropsShallowEqual (ownProps container) props
                   then (Inr False, container)
                   else
                     (case activateContainer container (currentGlobal s) props of
                        (Inl e, c) \<Rightarrow> (Inl e, c)
                      | (Inr active, c) \<Rightarrow> (Inr (truthy active), c))) of
           (Inl e, c) \<Rightarrow> Threw e (s\<lparr> containers := putContainer key c (containers s) \<rparr>)
         | (Inr recompute, c) \<Rightarrow>
             (case (if recompute then
                      (case mapper (currentGlobal s) props of
                         Inl err \<Rightarrow> (c, [MapperCalled key (currentGlobal s), handleError err])
                       | Inr mapped \<Rightarrow>
                           (c\<lparr> mappedProps := Some mapped \<rparr>,
                            [MapperCalled key (currentGlobal s)]))
                    else (c, [])) of
                (c', evs) \<Rightarrow>
                  Done (s\<lparr> containers := putContainer key (c'\<lparr> ownProps := props \<rparr>) (containers s),
                          history := history s @ evs \<rparr>)))"

text \<open>The cleanup \<^verbatim>\<open>containers.delete(id)\<close> of an unmounting subscriber.\<close>

definition unmountContainer :: "string \<Rightarrow> teactn \<Rightarrow> teactn" where
  "unmountContainer key s = s\<lparr> containers := filter (\<lambda>(k, c). k \<noteq> key) (containers s) \<rparr>"

section \<open>Reachable states\<close>

text \<open>
  The states the module can be in between two calls from outside: the loaded module,
  and what a public operation, a render or unmount of a subscriber, the end of a tick or
  the animation subsystem makes of a reachable state. An operation that throws leaves
  the state it had reached.
\<close>

inductive reachable :: "teactn \<Rightarrow> bool" where
  loaded: "reachable (initial debug rnd)"
| setGlobal: "reachable s \<Longrightarrow> reachable (stateOf (setUntypedGlobal newGlobal options s))"
| getGlobal: "reachable s \<Longrightarrow> reachable (snd (getUntypedGlobal s))"
| forceOnce: "reachable s \<Longrightarrow> reachable (forceOnHeavyAnimationOnce s)"
| addHandler: "reachable s \<Longrightarrow> reachable (addUntypedActionHandler name handler s)"
| action: "reachable s \<Longrightarrow> dispatch fuel name payload options s = Some out \<Longrightarrow>
    reachable (stateOf out)"
| addCb: "reachable s \<Longrightarrow> reachable (addCallback (External n) s)"
| removeCb: "reachable s \<Longrightarrow> reachable (removeCallback cb s)"
| render: "reachable s \<Longrightarrow>
    reachable (stateOf (TeactNContainer mapper activation componentName key notify props s))"
| unmount: "reachable s \<Longrightarrow> reachable (unmountContainer key s)"
| tick: "reachable s \<Longrightarrow> reachable (stateOf (tickEnd s))"
| animationBegins: "reachable s \<Longrightarrow> reachable (beginHeavyAnimation s)"
| animationEnds: "reachable s \<Longrightarrow> reachable (endHeavyAnimation s)"

section \<open>Auxiliary notions for the proofs\<close>

text \<open>What a recompute pass leaves alone: everything but the containers and the history.\<close>

definition passFrame :: "teactn \<Rightarrow> teactn \<Rightarrow> bool" where
  "passFrame s s' \<longleftrightarrow>
     DEBUG s' = DEBUG s \<and> currentGlobal s' = currentGlobal s \<and>
     DEBUG_currentRandomId s' = DEBUG_currentRandomId s \<and>
     actionHandlers s' = actionHandlers s \<and> callbacks s' = callbacks s \<and>
     forceOnHeavyAnimation s' = forceOnHeavyAnimation s \<and>
     actionQueue s' = actionQueue s \<and> tickEndQueue s' = tickEndQueue s \<and>
     isHeavyAnimating s' = isHeavyAnimating s \<and> onceIdle s' = onceIdle s \<and>
     randoms s' = randoms s \<and> drawn s' = drawn s \<and> copies s' = copies s"

text \<open>The loop of a pass over \<open>cs\<close> gets as far as the container at index \<open>i\<close>: every
  container before it was visited and the loop went on.\<close>

fun reaches :: "jsval \<Rightarrow> (string \<times> Container) list \<Rightarrow> nat \<Rightarrow> bool" where
  "reaches global [] i = False"
| "reaches global ((key, c) # rest) 0 = True"
| "reaches global ((key, c) # rest) (Suc i) =
     (case visitContainer global key c of
        Visited c' evs \<Rightarrow> reaches global rest i
      | Returned c' evs \<Rightarrow> False
      | Raised e c' evs \<Rightarrow> False)"

text \<open>The errors reported, and the tokens notified, in a stretch of the history.\<close>

fun reportsOf :: "event list \<Rightarrow> exn list" where
  "reportsOf [] = []"
| "reportsOf (Reported err # evs) = err # reportsOf evs"
| "reportsOf (ev # evs) = reportsOf evs"

fun notifiedOf :: "event list \<Rightarrow> nat list" where
  "notifiedOf [] = []"
| "notifiedOf (Notified token # evs) = token # notifiedOf evs"
| "notifiedOf (ev # evs) = notifiedOf evs"

text \<open>The actions dispatched, and the handlers called (name, index, payload), in a stretch
  of the history; the events a recompute pass or a callback can add.\<close>

fun dispatchedOf :: "event list \<Rightarrow> (string \<times> jsval \<times> ActionOptions option) list" where
  "dispatchedOf [] = []"
| "dispatchedOf (Dispatched name payload options # evs) =
     (name, payload, options) # dispatchedOf evs"
| "dispatchedOf (ev # evs) = dispatchedOf evs"

fun handlerCallsOf :: "event list \<Rightarrow> (string \<times> nat \<times> jsval) list" where
  "handlerCallsOf [] = []"
| "handlerCallsOf (HandlerCalled name i global payload # evs) =
     (name, i, payload) # handlerCallsOf evs"
| "handlerCallsOf (ev # evs) = handlerCallsOf evs"

fun passEvent :: "event \<Rightarrow> bool" where
  "passEvent (Dispatched name payload options) = False"
| "passEvent (HandlerCalled name i global payload) = False"
| "passEvent ev = True"

text \<open>The handlers registered under a name, and the handler calls that running the
  closure of a dispatched action once makes: each handler of the name, in the order of
  registration, with the payload.\<close>

definition handlersOf :: "(string \<Rightarrow> ActionHandler list option) \<Rightarrow> string \<Rightarrow> ActionHandler list" where
  "handlersOf table name = (case table name of None \<Rightarrow> [] | Some handlers \<Rightarrow> handlers)"

definition callsFor ::
  "(string \<Rightarrow> ActionHandler list option) \<Rightarrow> string \<times> jsval \<times> ActionOptions option \<Rightarrow>
     (string \<times> nat \<times> jsval) list" where
  "callsFor table item =
     (case item of (name, payload, options) \<Rightarrow>
        map (\<lambda>i. (name, i, payload)) [0..<length (handlersOf table name)])"

text \<open>An operation that neither dispatches nor calls a handler, and leaves the
  dispatcher's queue and table alone.\<close>

definition quiet :: "teactn \<Rightarrow> teactn \<Rightarrow> bool" where
  "quiet s s' \<longleftrightarrow>
     DEBUG s' = DEBUG s \<and> actionHandlers s' = actionHandlers s \<and>
     actionQueue s' = actionQueue s \<and>
     (\<exists>new. history s' = history s @ new \<and> list_all passEvent new)"

text \<open>While a closure runs, the queue grows by exactly the actions dispatched, and
  \<open>calls\<close> are the handler calls made.\<close>

definition advanced :: "teactn \<Rightarrow> teactn \<Rightarrow> (string \<times> nat \<times> jsval) list \<Rightarrow> bool" where
  "advanced s s' calls \<longleftrightarrow>
     DEBUG s' = DEBUG s \<and> actionHandlers s' = actionHandlers s \<and>
     (\<exists>new. history s' = history s @ new \<and>
        actionQueue s' = actionQueue s @ dispatchedOf new \<and> handlerCallsOf new = calls)"

text \<open>Between two calls from outside, no action is queued and the live state is of
  type \<^verbatim>\<open>object\<close>.\<close>

definition settled :: "teactn \<Rightarrow> bool" where
  "settled s \<longleftrightarrow> actionQueue s = [] \<and> typeof (currentGlobal s) = TObject"

section \<open>The dispatcher in the spec's words\<close>

text \<open>
  "A dispatch triggered from inside a currently-draining handler is appended to the same
  queue, not executed via a nested call stack."
\<close>

definition enqueue :: "string \<Rightarrow> jsval \<Rightarrow> ActionOptions option \<Rightarrow> teactn \<Rightarrow> teactn" where
  "enqueue name payload options s =
     record_event (Dispatched name payload options)
       (s\<lparr> actionQueue := actionQueue s @ [(name, payload, options)] \<rparr>)"

fun callsWhileDraining :: "call list \<Rightarrow> teactn \<Rightarrow> teactn outcome" where
  "callsWhileDraining [] s = Done s"
| "callsWhileDraining (CallAction name payload options # calls) s =
     (if actionHandlers s name = None then Threw TypeError s
      else callsWhileDraining calls (enqueue name payload options s))"
| "callsWhileDraining (CallSetGlobal newGlobal options # calls) s =
     (case setUntypedGlobal newGlobal options s of
        Threw e s' \<Rightarrow> Threw e s'
      | Done s' \<Rightarrow> callsWhileDraining calls s')"
| "callsWhileDraining (CallGetGlobal # calls) s =
     callsWhileDraining calls (snd (getUntypedGlobal s))"

text \<open>
  "For each handler result: if it is no value, skip. If it is a pending result, skip
  synchronous application. Otherwise treat the return value as the next state and
  replace the State Cell with it, passing through options."
\<close>

definition noValue :: "jsval \<Rightarrow> bool" where
  "noValue response = (\<not> truthy response)"

definition pendingResult :: "jsval \<Rightarrow> bool" where
  "pendingResult response = (truthy response \<and> isThenable response)"

definition applyResult :: "jsval \<Rightarrow> ActionOptions option \<Rightarrow> teactn \<Rightarrow> teactn outcome" where
  "applyResult response options s =
     (if noValue response then Done s
      else if pendingResult response then Done s
      else setUntypedGlobal response options s)"

text \<open>
  "All run, in registration order": each handler is called with the state that is live
  when its turn comes (in a DEBUG build, with the stamped copy that
  \<^verbatim>\<open>getUntypedGlobal\<close> makes of it).
\<close>

fun handlersInOrder ::
  "string \<Rightarrow> jsval \<Rightarrow> ActionOptions option \<Rightarrow> nat \<Rightarrow> ActionHandler list \<Rightarrow> teactn \<Rightarrow>
     teactn outcome" where
  "handlersInOrder name payload options i [] s = Done s"
| "handlersInOrder name payload options i (handler # handlers) s =
     (case getUntypedGlobal s of
        (live, s0) \<Rightarrow>
          (case callsWhileDraining (fst (handler live payload))
                  (record_event (HandlerCalled name i live payload) s0) of
             Threw e s1 \<Rightarrow> Threw e s1
           | Done s1 \<Rightarrow>
               (case snd (handler live payload) of
                  Throw e \<Rightarrow> Threw e s1
                | Return response \<Rightarrow>
                    (case applyResult response options s1 of
                       Threw e s2 \<Rightarrow> Threw e s2
                     | Done s2 \<Rightarrow> handlersInOrder name payload options (Suc i) handlers s2))))"



text \<open>An object in the language's sense: \<^verbatim>\<open>null\<close> is none, whatever \<^verbatim>\<open>typeof\<close> answers.\<close>

fun isObject :: "jsval \<Rightarrow> bool" where
  "isObject (JObj r fs) = True"
| "isObject (JFun f) = True"
| "isObject v = False"


section \<open>Example configurations\<close>

text \<open>Concrete states and values on which the theorems below are instantiated.\<close>

definition exampleGlobal :: jsval where
  "exampleGlobal = JObj (UserRef 1) [(''isInited'', JBool True)]"

definition secondGlobal :: jsval where
  "secondGlobal = JObj (UserRef 2) [(''isInited'', JBool True), (''tab'', JNum 3)]"

definition exampleMapper :: MapStateToProps where
  "exampleMapper global own = Inr [(''global'', global)]"

definition loadedState :: teactn where
  "loadedState = initial False int"

definition mountedState :: teactn where
  "mountedState =
     stateOf (TeactNContainer exampleMapper None ''Chat'' ''container1'' 1 [] loadedState)"

definition settledState :: teactn where
  "settledState = stateOf (tickEnd (stateOf (setUntypedGlobal exampleGlobal None mountedState)))"

definition calmBusyState :: teactn where
  "calmBusyState = beginHeavyAnimation settledState"


definition syncOptions :: ActionOptions where
  "syncOptions = \<lparr> opt_forceOnHeavyAnimation = False, opt_forceSyncOnIOs = True,
     opt_forceOutdated = False \<rparr>"

definition urgentOptions :: ActionOptions where
  "urgentOptions = \<lparr> opt_forceOnHeavyAnimation = True, opt_forceSyncOnIOs = False,
     opt_forceOutdated = False \<rparr>"

text \<open>An activation function that calls \<^verbatim>\<open>stickToFirst\<close> twice in one evaluation, and a
  subscriber with it that has latched nothing yet.\<close>

definition stickTwice :: ActivationFn where
  "stickTwice global own =
     ActStick (JStr ''chat-1'') (\<lambda>first. ActStick (JStr ''chat-2'') (\<lambda>second. ActReturn second))"

definition freshContainer :: Container where
  "freshContainer =
     \<lparr> mapStateToProps = exampleMapper, activationFn = Some stickTwice, stuckTo = JUndefined,
       ownProps = [], mappedProps = Some [], forceUpdate = 1, DEBUG_updates = 0,
       DEBUG_componentName = ''Chat'' \<rparr>"

text \<open>A mapper that works on the state of the loaded module and throws on every other.\<close>

definition failingMapper :: MapStateToProps where
  "failingMapper global own =
     (if global = currentGlobal loadedState then Inr [(''ready'', JBool False)]
      else Inl (Thrown (JStr ''boom'')))"

definition threeMounted :: teactn where
  "threeMounted =
     stateOf (TeactNContainer exampleMapper None ''Z'' ''z'' 3 []
       (stateOf (TeactNContainer failingMapper None ''Y'' ''y'' 2 []
         (stateOf (TeactNContainer exampleMapper None ''X'' ''x'' 1 [] loadedState)))))"

definition mappedOf :: "teactn \<Rightarrow> (string \<times> props option) list" where
  "mappedOf s = map (\<lambda>(key, c). (key, mappedProps c)) (containers s)"

definition subscriber :: "MapStateToProps \<Rightarrow> string \<Rightarrow> nat \<Rightarrow> props \<Rightarrow> Container" where
  "subscriber mapper componentName token mapped =
     \<lparr> mapStateToProps = mapper, activationFn = None, stuckTo = JUndefined,
       ownProps = [], mappedProps = Some mapped, forceUpdate = token,
       DEBUG_updates = 0, DEBUG_componentName = componentName \<rparr>"

definition pendingState :: teactn where
  "pendingState = stateOf (setUntypedGlobal exampleGlobal None mountedState)"

definition pendingThree :: teactn where
  "pendingThree = stateOf (setUntypedGlobal exampleGlobal None threeMounted)"

text \<open>Handlers: the first handler of \<open>A\<close> dispatches \<open>B\<close> and returns nothing, the second
  returns a new state; the handler of \<open>B\<close> returns nothing; the handler of \<open>fail\<close>
  dispatches \<open>B\<close> and throws.\<close>

definition firstOfA :: ActionHandler where
  "firstOfA global payload = ([CallAction ''B'' (JStr ''from A'') None], Return JUndefined)"

definition secondOfA :: ActionHandler where
  "secondOfA global payload = ([], Return secondGlobal)"

definition handlerOfB :: ActionHandler where
  "handlerOfB global payload = ([], Return JUndefined)"

definition failing :: ActionHandler where
  "failing global payload = ([CallAction ''B'' JNull None], Throw (Thrown (JStr ''boom'')))"

definition dispatchState :: teactn where
  "dispatchState =
     addUntypedActionHandler ''fail'' failing
       (addUntypedActionHandler ''B'' handlerOfB
         (addUntypedActionHandler ''A'' secondOfA
           (addUntypedActionHandler ''A'' firstOfA loadedState)))"

definition afterDispatch :: teactn where
  "afterDispatch =
     stateOf (the (handleAction (Suc (Suc (Suc 0))) ''A'' (JNum 1) None dispatchState))"

definition afterFailure :: teactn where
  "afterFailure = stateOf (the (dispatch (Suc (Suc 0)) ''fail'' JNull None dispatchState))"






section \<open>The state cell\<close>

lemma strictEq_sym_object: "typeof a = TObject \<Longrightarrow> strictEq b a = strictEq a b"
  by (cases a; cases b) auto

lemma strictEq_refl_object: "typeof a = TObject \<Longrightarrow> strictEq a a"
  by (cases a) auto

lemma not_strictEq_neq: "\<not> strictEq a b \<Longrightarrow> typeof a = TObject \<Longrightarrow> a \<noteq> b"
  by (cases a; cases b) auto

lemma passFrame_refl: "passFrame s s"
  by (simp add: passFrame_def)

lemma passFrame_trans: "passFrame s s' \<Longrightarrow> passFrame s' s'' \<Longrightarrow> passFrame s s''"
  by (simp add: passFrame_def)

lemma updateContainers_passFrame: "passFrame s (stateOf (updateContainers s))"
  by (auto simp: updateContainers_def passFrame_def Let_def split: prod.splits option.splits)

lemma callCallback_passFrame: "passFrame s (stateOf (callCallback cb s))"
  by (cases cb) (simp_all add: updateContainers_passFrame, simp add: passFrame_def record_event_def)

lemma forEachCallback_passFrame: "passFrame s (stateOf (forEachCallback cbs s))"
proof (induction cbs arbitrary: s)
  case Nil
  show ?case by (simp add: passFrame_refl)
next
  case (Cons cb cbs)
  show ?case
  proof (cases "callCallback cb s")
    case (Done s')
    with callCallback_passFrame [of s cb] have "passFrame s s'" by simp
    with Cons.IH [of s'] Done show ?thesis by (auto intro: passFrame_trans)
  next
    case (Threw e s')
    with callCallback_passFrame [of s cb] show ?thesis by simp
  qed
qed

lemma runCallbacks_currentGlobal: "currentGlobal (stateOf (runCallbacks s)) = currentGlobal s"
  using forEachCallback_passFrame [of "s\<lparr>forceOnHeavyAnimation := False\<rparr>" "callbacks s"]
    forEachCallback_passFrame [of s "callbacks s"]
  by (simp add: runCallbacks_def passFrame_def getIsHeavyAnimating_once_def)


lemma DEBUG_setGlobal_cases:
  "DEBUG_setGlobal newGlobal options s = Threw TypeError s \<or>
   DEBUG_setGlobal newGlobal options s = Threw OutdatedGlobal s \<or>
   DEBUG_setGlobal newGlobal options s =
     Done (s\<lparr> drawn := Suc (drawn s), DEBUG_currentRandomId := JNum (randoms s (drawn s)) \<rparr>)"
  by (cases newGlobal) (auto simp: DEBUG_setGlobal_def mathRandom_def Let_def)

lemma DEBUG_setGlobal_currentGlobal:
  "currentGlobal (stateOf (DEBUG_setGlobal newGlobal options s)) = currentGlobal s"
  using DEBUG_setGlobal_cases [of newGlobal options s] by auto

lemma setUntypedGlobal_not_object:
  "typeof newGlobal \<noteq> TObject \<Longrightarrow> setUntypedGlobal newGlobal options s = Done s"
  by (simp add: setUntypedGlobal_def)

lemma setUntypedGlobal_same:
  "strictEq newGlobal (currentGlobal s) \<Longrightarrow> setUntypedGlobal newGlobal options s = Done s"
  by (simp add: setUntypedGlobal_def)

lemma setUntypedGlobal_distinct:
  assumes "typeof newGlobal = TObject" and "\<not> strictEq newGlobal (currentGlobal s)"
    and "\<not> DEBUG s"
  shows "setUntypedGlobal newGlobal options s =
    (if optional opt_forceSyncOnIOs options
     then runCallbacks (s\<lparr> currentGlobal := newGlobal, forceOnHeavyAnimation := True \<rparr>)
     else Done (runCallbacksThrottled
       (if optional opt_forceOnHeavyAnimation options
        then s\<lparr> currentGlobal := newGlobal, forceOnHeavyAnimation := True \<rparr>
        else s\<lparr> currentGlobal := newGlobal \<rparr>)))"
  using assms by (simp add: setUntypedGlobal_def Let_def)

lemma setUntypedGlobal_currentGlobal:
  "currentGlobal (stateOf (setUntypedGlobal newGlobal options s)) = newGlobal \<or>
   currentGlobal (stateOf (setUntypedGlobal newGlobal options s)) = currentGlobal s"
  using DEBUG_setGlobal_cases [of newGlobal options s]
  by (auto simp: setUntypedGlobal_def Let_def runCallbacks_currentGlobal
      runCallbacksThrottled_def throttleWithTickEnd_def)

lemma setUntypedGlobal_typeof:
  "typeof (currentGlobal s) = TObject \<Longrightarrow>
   typeof (currentGlobal (stateOf (setUntypedGlobal newGlobal options s))) = TObject"
  using DEBUG_setGlobal_cases [of newGlobal options s]
  by (auto simp: setUntypedGlobal_def Let_def runCallbacks_currentGlobal
      runCallbacksThrottled_def throttleWithTickEnd_def)





lemma outcome_case_same [simp]:
  "(case r of Done x \<Rightarrow> Done x | Threw e x \<Rightarrow> Threw e x) = r"
  by (cases r) simp_all


lemma mountedState_simp:
  "mountedState = loadedState\<lparr>
     containers := [(''container1'',
       \<lparr> mapStateToProps = exampleMapper, activationFn = None, stuckTo = JUndefined,
         ownProps = [], mappedProps = Some [(''global'', currentGlobal loadedState)],
         forceUpdate = 1, DEBUG_updates = 0, DEBUG_componentName = ''Chat'' \<rparr>)],
     history := [MapperCalled ''container1'' (currentGlobal loadedState)] \<rparr>"
  by (simp add: mountedState_def loadedState_def initial_def TeactNContainer_def
      exampleMapper_def handleError_def)



text \<open>
  Claim C1, as stated: for every call, the state read afterwards is the new value if and
  only if the new value is reference-unequal to the live state. It fails for a new
  value that is not of type \<^verbatim>\<open>object\<close>, which the signature \<^verbatim>\<open>newGlobal?: GlobalState\<close>
  admits: \<^verbatim>\<open>undefined\<close> is reference-unequal to the live state and is not what is read
  afterwards.
\<close>

theorem C1_counterexample:
  "\<not> strictEq JUndefined (currentGlobal loadedState) \<and>
   \<not> strictEq (fst (getUntypedGlobal (stateOf (setUntypedGlobal JUndefined None loadedState)))) JUndefined"
  by (simp add: loadedState_def initial_def setUntypedGlobal_def getUntypedGlobal_def)

text \<open>
  Claim C1, amended: in a build without DEBUG, for every call whose new value is of type
  \<^verbatim>\<open>object\<close>, the state read afterwards is (reference-equal to) the new value; the call
  is a no-op that changes nothing when the new value is the live one, and otherwise it
  changes the state, makes the new value the live one and, unless it ran the callbacks
  synchronously, leaves the recompute pass waiting for the end of the tick.
\<close>

theorem C1_amended:
  assumes "typeof newGlobal = TObject" and "\<not> DEBUG s"
  shows "strictEq (fst (getUntypedGlobal (stateOf (setUntypedGlobal newGlobal options s)))) newGlobal
    \<and> (strictEq newGlobal (currentGlobal s) \<longrightarrow> setUntypedGlobal newGlobal options s = Done s)
    \<and> (\<not> strictEq newGlobal (currentGlobal s) \<longrightarrow>
         stateOf (setUntypedGlobal newGlobal options s) \<noteq> s \<and>
         currentGlobal (stateOf (setUntypedGlobal newGlobal options s)) = newGlobal \<and>
         (\<not> optional opt_forceSyncOnIOs options \<longrightarrow>
            RunCallbacks \<in> set (tickEndQueue (stateOf (setUntypedGlobal newGlobal options s)))))"
proof (cases "strictEq newGlobal (currentGlobal s)")
  case True
  then show ?thesis
    using assms by (simp add: setUntypedGlobal_same getUntypedGlobal_def strictEq_sym_object)
next
  case False
  let ?r = "setUntypedGlobal newGlobal options s"
  have cur: "currentGlobal (stateOf ?r) = newGlobal"
    using assms False
    by (simp add: setUntypedGlobal_distinct runCallbacks_currentGlobal
        runCallbacksThrottled_def throttleWithTickEnd_def)
  have dbg: "\<not> DEBUG (stateOf ?r)"
    using assms False
      forEachCallback_passFrame [of "s\<lparr>currentGlobal := newGlobal, forceOnHeavyAnimation := False\<rparr>" "callbacks s"]
    by (simp add: setUntypedGlobal_distinct runCallbacks_def passFrame_def
        runCallbacksThrottled_def throttleWithTickEnd_def)
  have neq: "stateOf ?r \<noteq> s"
    using cur not_strictEq_neq [OF False assms(1)] by auto
  have queued: "\<not> optional opt_forceSyncOnIOs options \<Longrightarrow> RunCallbacks \<in> set (tickEndQueue (stateOf ?r))"
    using assms False
    by (simp add: setUntypedGlobal_distinct runCallbacksThrottled_def throttleWithTickEnd_def)
  show ?thesis
    using False cur dbg neq queued assms(1)
    by (simp add: getUntypedGlobal_def strictEq_refl_object)
qed

theorem C1_witness:
  "typeof exampleGlobal = TObject \<and> \<not> DEBUG loadedState \<and>
   \<not> strictEq exampleGlobal (currentGlobal loadedState) \<and>
   strictEq (fst (getUntypedGlobal (stateOf (setUntypedGlobal exampleGlobal None loadedState)))) exampleGlobal \<and>
   RunCallbacks \<in> set (tickEndQueue (stateOf (setUntypedGlobal exampleGlobal None loadedState)))"
  using C1_amended [of exampleGlobal loadedState None]
  by (simp add: exampleGlobal_def loadedState_def initial_def)

text \<open>
  Claim C10: a replace with \<^verbatim>\<open>forceSyncOnIOs\<close> (of an object distinct from the live state,
  which the DEBUG check, if compiled in, lets through) runs every callback, the
  recompute pass among them, in the same turn on the new state. Neither the state of the
  gate nor the option \<^verbatim>\<open>forceOnHeavyAnimation\<close> is asked for: the override is set before
  the callbacks run and they consume it. Nothing is left waiting for the tick end or for
  the gate.
\<close>

theorem C10_sync:
  assumes "typeof newGlobal = TObject" and "\<not> strictEq newGlobal (currentGlobal s)"
    and "optional opt_forceSyncOnIOs options"
    and "(if DEBUG s then DEBUG_setGlobal newGlobal options s else Done s) = Done s1"
  shows "setUntypedGlobal newGlobal options s =
      forEachCallback (callbacks s)
        (s1\<lparr> currentGlobal := newGlobal, forceOnHeavyAnimation := False \<rparr>)
    \<and> \<not> forceOnHeavyAnimation (stateOf (setUntypedGlobal newGlobal options s))
    \<and> tickEndQueue (stateOf (setUntypedGlobal newGlobal options s)) = tickEndQueue s
    \<and> onceIdle (stateOf (setUntypedGlobal newGlobal options s)) = onceIdle s"
proof -
  have s1: "callbacks s1 = callbacks s \<and> tickEndQueue s1 = tickEndQueue s \<and> onceIdle s1 = onceIdle s"
    using assms(4) DEBUG_setGlobal_cases [of newGlobal options s]
    by (auto split: if_splits)
  let ?s2 = "s1\<lparr> currentGlobal := newGlobal, forceOnHeavyAnimation := False \<rparr>"
  have eq: "setUntypedGlobal newGlobal options s = forEachCallback (callbacks s) ?s2"
    using assms s1 by (simp add: setUntypedGlobal_def Let_def runCallbacks_def)
  show ?thesis
    using eq s1 forEachCallback_passFrame [of ?s2 "callbacks s"]
    by (simp add: passFrame_def)
qed

theorem C10_witness:
  "typeof exampleGlobal = TObject \<and>
   \<not> strictEq exampleGlobal (currentGlobal (beginHeavyAnimation mountedState)) \<and>
   optional opt_forceSyncOnIOs (Some syncOptions) \<and>
   \<not> optional opt_forceOnHeavyAnimation (Some syncOptions) \<and>
   isHeavyAnimating (beginHeavyAnimation mountedState) \<and>
   history (stateOf (setUntypedGlobal exampleGlobal (Some syncOptions)
       (beginHeavyAnimation mountedState))) =
     [MapperCalled ''container1'' (currentGlobal loadedState),
      MapperCalled ''container1'' exampleGlobal, Notified 1] \<and>
   tickEndQueue (stateOf (setUntypedGlobal exampleGlobal (Some syncOptions)
       (beginHeavyAnimation mountedState))) = [] \<and>
   onceIdle (stateOf (setUntypedGlobal exampleGlobal (Some syncOptions)
       (beginHeavyAnimation mountedState))) = []"
  using C10_sync [of exampleGlobal "beginHeavyAnimation mountedState" "Some syncOptions"
      "beginHeavyAnimation mountedState"]
  by (simp add: mountedState_simp loadedState_def initial_def beginHeavyAnimation_def
      exampleGlobal_def syncOptions_def updateContainers_def
      visitContainer_def activateContainer_def exampleMapper_def objectKeys_def
      arePropsShallowEqual_def)

section \<open>Activation\<close>

lemma runActivation_frame: "\<exists>v. snd (runActivation a captured c) = c\<lparr> stuckTo := v \<rparr>"
proof (induction a arbitrary: c)
  case (ActReturn x)
  have "c = c\<lparr> stuckTo := stuckTo c \<rparr>" by simp
  then show ?case by (metis runActivation.simps(1) snd_conv)
next
  case (ActThrow x)
  have "c = c\<lparr> stuckTo := stuckTo c \<rparr>" by simp
  then show ?case by (metis runActivation.simps(2) snd_conv)
next
  case (ActStick stickTo k)
  obtain answer c1 where st: "stickToFirst captured stickTo c = (answer, c1)"
    by (cases "stickToFirst captured stickTo c")
  then have "c1 = c \<or> c1 = c\<lparr> stuckTo := stickTo \<rparr>"
    by (auto simp: stickToFirst_def Let_def split: if_splits)
  moreover obtain v where "snd (runActivation (k answer) captured c1) = c1\<lparr> stuckTo := v \<rparr>"
    using ActStick.IH [of "k answer" c1] by auto
  ultimately have "snd (runActivation (k answer) captured c1) = c\<lparr> stuckTo := v \<rparr>"
    by auto
  with st show ?case by auto
qed

lemma activateContainer_frame:
  "activateContainer c g p = (r, c') \<Longrightarrow> \<exists>v. c' = c\<lparr> stuckTo := v \<rparr>"
proof (cases "activationFn c")
  case None
  assume "activateContainer c g p = (r, c')"
  with None have "c' = c" by (simp add: activateContainer_def)
  then have "c' = c\<lparr> stuckTo := stuckTo c \<rparr>" by simp
  then show ?thesis ..
next
  case (Some fn)
  assume "activateContainer c g p = (r, c')"
  with Some have "c' = snd (runActivation (fn g p) (stuckTo c) c)"
    by (simp add: activateContainer_def)
  with runActivation_frame [of "fn g p" "stuckTo c" c] show ?thesis by auto
qed

lemma runActivation_latched:
  "truthy captured \<Longrightarrow> stuckTo c = captured \<Longrightarrow> snd (runActivation a captured c) = c"
  by (induction a arbitrary: c) (auto simp: stickToFirst_def Let_def)

lemma activateContainer_latched:
  "truthy (stuckTo c) \<Longrightarrow> snd (activateContainer c g p) = c"
  by (cases "activationFn c") (simp_all add: activateContainer_def runActivation_latched)

lemma activateContainer_always_active:
  "activationFn c = None \<Longrightarrow> activateContainer c g p = (Inr (JBool True), c)"
  by (simp add: activateContainer_def)

lemma stickToFirst_latched:
  "truthy latched \<Longrightarrow>
   stickToFirst latched candidate c =
     (if truthy candidate then JBool (strictEq latched candidate) else candidate, c)"
  by (simp add: stickToFirst_def)

lemma stickToFirst_unlatched:
  "\<not> truthy captured \<Longrightarrow>
   stickToFirst captured candidate c =
     (if truthy candidate then JBool True else candidate,
      if truthy candidate then c\<lparr> stuckTo := candidate \<rparr> else c)"
  by (simp add: stickToFirst_def)

text \<open>
  Claim C6 holds of an activation function that calls \<^verbatim>\<open>stickToFirst\<close> once in an
  evaluation: the answer is \<^verbatim>\<open>true\<close> exactly for a non-empty candidate that is the
  latched value or finds nothing latched, and then the candidate is the latched value.
\<close>

lemma activateContainer_single_call:
  assumes "activationFn c = Some fn" and "fn g p = ActStick candidate ActReturn"
  shows "activateContainer c g p =
    (Inr (if truthy candidate
          then JBool (\<not> truthy (stuckTo c) \<or> strictEq (stuckTo c) candidate)
          else candidate),
     if truthy candidate \<and> \<not> truthy (stuckTo c) then c\<lparr> stuckTo := candidate \<rparr> else c)"
  using assms by (simp add: activateContainer_def stickToFirst_def Let_def)

text \<open>
  Claim C6, at the failing input: the closure tests the \<^verbatim>\<open>stuckTo\<close> that was captured when
  the evaluation began. In one evaluation with nothing latched yet, a second call of
  \<^verbatim>\<open>stickToFirst\<close> with another non-empty candidate is answered \<^verbatim>\<open>true\<close> as well and
  replaces the value the first call latched.
\<close>

theorem C6_stale_capture:
  "activateContainer freshContainer exampleGlobal [] =
     (Inr (JBool True), freshContainer\<lparr> stuckTo := JStr ''chat-2'' \<rparr>)"
  by (simp add: activateContainer_def freshContainer_def stickTwice_def stickToFirst_def)

section \<open>The recompute pass\<close>

lemma arePropsShallowEqual_iff:
  "arePropsShallowEqual old new \<longleftrightarrow>
     set (objectKeys old) = set (objectKeys new) \<and>
     (\<forall>k \<in> set (objectKeys old). strictEq (getField old k) (getField new k))"
  by (auto simp: arePropsShallowEqual_def list_all_iff)

lemma visitContainer_derived:
  assumes "activateContainer c g (ownProps c) = (Inr active, c1)" and "truthy active"
    and "mapStateToProps c g (ownProps c) = Inr new" and "mappedProps c = Some old"
  shows "visitContainer g key c =
    (if objectKeys new \<noteq> [] \<and> \<not> arePropsShallowEqual old new
     then Visited (c1\<lparr> mappedProps := Some new, DEBUG_updates := Suc (DEBUG_updates c1) \<rparr>)
            [MapperCalled key g, Notified (forceUpdate c)]
     else Visited c1 [MapperCalled key g])"
  using assms by (simp add: visitContainer_def)

lemma visitContainer_threw:
  assumes "activateContainer c g (ownProps c) = (Inr active, c1)" and "truthy active"
    and "mapStateToProps c g (ownProps c) = Inl err"
  shows "visitContainer g key c = Returned c1 [MapperCalled key g, Reported err]"
  using assms by (simp add: visitContainer_def handleError_def)

lemma visitContainer_Visited:
  assumes "visitContainer g key c = Visited c' evs"
  shows "forceUpdate c' = forceUpdate c \<and> reportsOf evs = [] \<and>
    set (notifiedOf evs) \<subseteq> {forceUpdate c}"
proof -
  obtain r c1 where act: "activateContainer c g (ownProps c) = (r, c1)"
    by (cases "activateContainer c g (ownProps c)")
  from activateContainer_frame [OF act] have "forceUpdate c1 = forceUpdate c" by auto
  with assms act show ?thesis
    by (auto simp: visitContainer_def handleError_def
        split: sum.splits if_splits option.splits)
qed

lemma visitContainer_Returned:
  assumes "visitContainer g key c = Returned c' evs"
  shows "notifiedOf evs = [] \<and> mappedProps c' = mappedProps c \<and>
    (\<exists>err. evs = [MapperCalled key g, Reported err])"
proof -
  obtain r c1 where act: "activateContainer c g (ownProps c) = (r, c1)"
    by (cases "activateContainer c g (ownProps c)")
  from activateContainer_frame [OF act] have "mappedProps c1 = mappedProps c" by auto
  with assms act show ?thesis
    by (auto simp: visitContainer_def handleError_def
        split: sum.splits if_splits option.splits)
qed

lemma visitContainer_Raised:
  assumes "visitContainer g key c = Raised e c' evs"
  shows "notifiedOf evs = [] \<and> reportsOf evs = [] \<and> mappedProps c' = mappedProps c"
proof -
  obtain r c1 where act: "activateContainer c g (ownProps c) = (r, c1)"
    by (cases "activateContainer c g (ownProps c)")
  from activateContainer_frame [OF act] have "mappedProps c1 = mappedProps c" by auto
  with assms act show ?thesis
    by (auto simp: visitContainer_def handleError_def
        split: sum.splits if_splits option.splits)
qed

lemma notifiedOf_append: "notifiedOf (xs @ ys) = notifiedOf xs @ notifiedOf ys"
  by (induction xs rule: notifiedOf.induct) simp_all

lemma reportsOf_append: "reportsOf (xs @ ys) = reportsOf xs @ reportsOf ys"
  by (induction xs rule: reportsOf.induct) simp_all

lemma updateLoop_notified:
  "updateLoop g cs = (cs', evs, raised) \<Longrightarrow>
   set (notifiedOf evs) \<subseteq> (\<lambda>(k, c). forceUpdate c) ` set cs"
proof (induction cs arbitrary: cs' evs raised)
  case Nil
  then show ?case by simp
next
  case (Cons kc cs)
  obtain key c where kc: "kc = (key, c)" by (cases kc)
  show ?case
  proof (cases "visitContainer g key c")
    case (Visited c1 ev1)
    obtain cs2 ev2 r2 where rest: "updateLoop g cs = (cs2, ev2, r2)"
      by (cases "updateLoop g cs") auto
    with Cons.prems kc Visited have "evs = ev1 @ ev2" by simp
    moreover from Cons.IH [OF rest]
    have "set (notifiedOf ev2) \<subseteq> (\<lambda>(k, c). forceUpdate c) ` set cs" .
    moreover from visitContainer_Visited [OF Visited]
    have "set (notifiedOf ev1) \<subseteq> {forceUpdate c}" by simp
    ultimately show ?thesis using kc by (auto simp: notifiedOf_append)
  next
    case (Returned c1 ev1)
    with Cons.prems kc visitContainer_Returned [OF Returned] show ?thesis by auto
  next
    case (Raised e c1 ev1)
    with Cons.prems kc visitContainer_Raised [OF Raised] show ?thesis by auto
  qed
qed

lemma reaches_length: "reaches g cs i \<Longrightarrow> i < length cs"
  by (induction g cs i rule: reaches.induct) (auto split: visit.splits)

lemma updateLoop_gate:
  assumes "reaches g cs i" and "cs ! i = (key, c)"
    and "activateContainer c g (ownProps c) = (Inr active, c1)" and "truthy active"
    and "mapStateToProps c g (ownProps c) = Inr new" and "mappedProps c = Some old"
    and "updateLoop g cs = (cs', evs, raised)"
    and "distinct (map (\<lambda>(k, c). forceUpdate c) cs)"
  shows "mappedProps (snd (cs' ! i)) =
      (if objectKeys new \<noteq> [] \<and> \<not> arePropsShallowEqual old new then Some new else Some old)
    \<and> count_list (notifiedOf evs) (forceUpdate c) =
      (if objectKeys new \<noteq> [] \<and> \<not> arePropsShallowEqual old new then 1 else 0)"
  using assms(1,2,7,8)
proof (induction cs arbitrary: i cs' evs raised)
  case Nil
  then show ?case by simp
next
  case (Cons kc0 rest)
  obtain k0 c0 where kc0: "kc0 = (k0, c0)" by (cases kc0)
  obtain cs2 ev2 r2 where rest: "updateLoop g rest = (cs2, ev2, r2)"
    by (cases "updateLoop g rest") auto
  define changed where "changed \<longleftrightarrow> objectKeys new \<noteq> [] \<and> \<not> arePropsShallowEqual old new"
  show ?case
  proof (cases i)
    case 0
    with Cons.prems kc0 have kc: "k0 = key" "c0 = c" by simp_all
    from activateContainer_frame [OF assms(3)] assms(6)
    have m1: "mappedProps c1 = Some old" by auto
    define c2 where "c2 =
      (if changed then c1\<lparr> mappedProps := Some new, DEBUG_updates := Suc (DEBUG_updates c1) \<rparr>
       else c1)"
    define ev1 where "ev1 =
      (if changed then [MapperCalled key g, Notified (forceUpdate c)] else [MapperCalled key g])"
    have "visitContainer g key c =
      (if changed
       then Visited (c1\<lparr> mappedProps := Some new, DEBUG_updates := Suc (DEBUG_updates c1) \<rparr>)
              [MapperCalled key g, Notified (forceUpdate c)]
       else Visited c1 [MapperCalled key g])"
      unfolding changed_def by (rule visitContainer_derived [OF assms(3,4,5,6)])
    then have v: "visitContainer g key c = Visited c2 ev1"
      by (cases changed) (simp_all add: c2_def ev1_def)
    have c2: "mappedProps c2 = (if changed then Some new else Some old)"
      using m1 by (simp add: c2_def)
    have ev1: "notifiedOf ev1 = (if changed then [forceUpdate c] else [])"
      by (simp add: ev1_def)
    from Cons.prems(3) kc0 kc v rest have res: "cs' = (key, c2) # cs2" "evs = ev1 @ ev2"
      by simp_all
    from updateLoop_notified [OF rest] Cons.prems(4) kc0 kc
    have "forceUpdate c \<notin> set (notifiedOf ev2)" by auto
    then have "count_list (notifiedOf ev2) (forceUpdate c) = 0" by (simp add: count_list_0_iff)
    with res c2 ev1 0 show ?thesis by (simp add: notifiedOf_append changed_def)
  next
    case (Suc j)
    with Cons.prems(1) kc0 obtain c0' ev0 where v: "visitContainer g k0 c0 = Visited c0' ev0"
      and r: "reaches g rest j"
      by (auto split: visit.splits)
    from Cons.prems(3) kc0 v rest have res: "cs' = (k0, c0') # cs2" "evs = ev0 @ ev2"
      by simp_all
    from Cons.prems(2) Suc have nth: "rest ! j = (key, c)" by simp
    from Cons.prems(4) have d: "distinct (map (\<lambda>(k, c). forceUpdate c) rest)" by simp
    from Cons.IH [OF r nth rest d]
    have ih: "mappedProps (snd (cs2 ! j)) =
        (if objectKeys new \<noteq> [] \<and> \<not> arePropsShallowEqual old new then Some new else Some old)
      \<and> count_list (notifiedOf ev2) (forceUpdate c) =
        (if objectKeys new \<noteq> [] \<and> \<not> arePropsShallowEqual old new then 1 else 0)" .
    from reaches_length [OF r] nth have "(key, c) \<in> set rest" by (metis nth_mem)
    with Cons.prems(4) kc0 have "forceUpdate c0 \<noteq> forceUpdate c" by force
    with visitContainer_Visited [OF v]
    have "forceUpdate c \<notin> set (notifiedOf ev0)" by auto
    then have "count_list (notifiedOf ev0) (forceUpdate c) = 0" by (simp add: count_list_0_iff)
    with res ih Suc show ?thesis by (simp add: notifiedOf_append)
  qed
qed

lemma updateContainers_loop:
  assumes "updateLoop (currentGlobal s) (containers s) = (cs', evs, raised)"
  shows "updateContainers s =
    (case raised of
       None \<Rightarrow> Done (s\<lparr> containers := cs', history := history s @ evs \<rparr>)
     | Some e \<Rightarrow> Threw e (s\<lparr> containers := cs', history := history s @ evs \<rparr>))"
  using assms by (simp add: updateContainers_def Let_def)

lemma updateLoop_prefix:
  assumes "reaches g (before @ kc # after) (length before)"
    and "updateLoop g before = (before', ev0, r0)"
  shows "r0 = None \<and> reportsOf ev0 = [] \<and> length before' = length before \<and>
    updateLoop g (before @ kc # after) =
      (case updateLoop g (kc # after) of (cs2, ev2, r2) \<Rightarrow> (before' @ cs2, ev0 @ ev2, r2))"
  using assms
proof (induction before arbitrary: before' ev0 r0)
  case Nil
  then show ?case by (cases "updateLoop g (kc # after)") auto
next
  case (Cons kc0 before)
  obtain k0 c0 where kc0: "kc0 = (k0, c0)" by (cases kc0)
  with Cons.prems(1) obtain c0' evv where v: "visitContainer g k0 c0 = Visited c0' evv"
    and r: "reaches g (before @ kc # after) (length before)"
    by (auto split: visit.splits)
  obtain b2 ev2 r2 where rest: "updateLoop g before = (b2, ev2, r2)"
    by (cases "updateLoop g before") auto
  from Cons.IH [OF r rest]
  have ih: "r2 = None" "reportsOf ev2 = []" "length b2 = length before"
    "updateLoop g (before @ kc # after) =
      (case updateLoop g (kc # after) of (cs2, ev3, r3) \<Rightarrow> (b2 @ cs2, ev2 @ ev3, r3))"
    by simp_all
  from Cons.prems(2) kc0 v rest
  have res: "before' = (k0, c0') # b2" "ev0 = evv @ ev2" "r0 = r2" by simp_all
  from visitContainer_Visited [OF v] have "reportsOf evv = []" by simp
  with res ih kc0 v show ?case
    by (cases "updateLoop g (kc # after)") (simp add: reportsOf_append)
qed

text \<open>
  Claim C5 holds of a container that has mapped props from before. Take a pass whose
  loop reaches a container that is active, has mapped props \<open>old\<close>, and whose mapper
  derives \<open>new\<close>. After the pass its mapped props are \<open>new\<close> if \<open>new\<close> is non-empty and not
  shallowly equal to \<open>old\<close>, and \<open>old\<close> otherwise; its \<^verbatim>\<open>forceUpdate\<close> (no other subscriber
  has the same) was called once in the first case and not at all in the second, however
  many keys differ.
\<close>

lemma updateContainers_shallow_gate:
  assumes "reaches (currentGlobal s) (containers s) i" and "containers s ! i = (key, c)"
    and "activateContainer c (currentGlobal s) (ownProps c) = (Inr active, c1)"
    and "truthy active"
    and "mapStateToProps c (currentGlobal s) (ownProps c) = Inr new"
    and "mappedProps c = Some old"
    and "distinct (map (\<lambda>(k, c). forceUpdate c) (containers s))"
  shows "mappedProps (snd (containers (stateOf (updateContainers s)) ! i)) =
      (if objectKeys new \<noteq> [] \<and> \<not> arePropsShallowEqual old new then Some new else Some old)
    \<and> count_list
        (notifiedOf (drop (length (history s)) (history (stateOf (updateContainers s)))))
        (forceUpdate c) =
      (if objectKeys new \<noteq> [] \<and> \<not> arePropsShallowEqual old new then 1 else 0)"
proof -
  obtain cs' evs raised
    where loop: "updateLoop (currentGlobal s) (containers s) = (cs', evs, raised)"
    by (cases "updateLoop (currentGlobal s) (containers s)") auto
  from updateContainers_loop [OF loop]
  have after: "containers (stateOf (updateContainers s)) = cs'"
    "history (stateOf (updateContainers s)) = history s @ evs"
    by (cases raised; simp)+
  from updateLoop_gate [OF assms(1-6) loop assms(7)] after
  show ?thesis by simp
qed

lemma pendingState_simp:
  "pendingState = loadedState\<lparr>
     currentGlobal := exampleGlobal,
     containers := [(''container1'',
       subscriber exampleMapper ''Chat'' 1 [(''global'', currentGlobal loadedState)])],
     tickEndQueue := [RunCallbacks],
     history := [MapperCalled ''container1'' (currentGlobal loadedState)] \<rparr>"
  by (simp add: pendingState_def mountedState_simp subscriber_def loadedState_def initial_def
      exampleGlobal_def setUntypedGlobal_def Let_def runCallbacksThrottled_def
      throttleWithTickEnd_def)

lemma shallow_gate_example:
  "mappedProps (snd (containers (stateOf (updateContainers pendingState)) ! 0)) =
     Some [(''global'', exampleGlobal)] \<and>
   count_list
     (notifiedOf (drop (length (history pendingState))
        (history (stateOf (updateContainers pendingState))))) 1 = 1"
proof -
  let ?c = "subscriber exampleMapper ''Chat'' 1 [(''global'', currentGlobal loadedState)]"
  have h: "reaches (currentGlobal pendingState) (containers pendingState) 0"
    "containers pendingState ! 0 = (''container1'', ?c)"
    "activateContainer ?c (currentGlobal pendingState) (ownProps ?c) = (Inr (JBool True), ?c)"
    "truthy (JBool True)"
    "mapStateToProps ?c (currentGlobal pendingState) (ownProps ?c) =
       Inr [(''global'', exampleGlobal)]"
    "mappedProps ?c = Some [(''global'', currentGlobal loadedState)]"
    "distinct (map (\<lambda>(k, c). forceUpdate c) (containers pendingState))"
    by (simp_all add: pendingState_simp subscriber_def activateContainer_def exampleMapper_def)
  have differ: "objectKeys [(''global'', exampleGlobal)] \<noteq> [] \<and>
      \<not> arePropsShallowEqual [(''global'', currentGlobal loadedState)] [(''global'', exampleGlobal)]"
    by (simp add: objectKeys_def arePropsShallowEqual_def loadedState_def initial_def
        exampleGlobal_def)
  from updateContainers_shallow_gate [OF h] differ
  have "mappedProps (snd (containers (stateOf (updateContainers pendingState)) ! 0)) =
      Some [(''global'', exampleGlobal)] \<and>
    count_list
      (notifiedOf (drop (length (history pendingState))
         (history (stateOf (updateContainers pendingState))))) (forceUpdate ?c) = 1"
    by simp
  moreover have "forceUpdate ?c = 1" by (simp add: subscriber_def)
  ultimately show ?thesis by simp
qed


text \<open>
  Claim C4, as stated: when a mapper throws, every container keeps its previous mapped
  props and receives no notify call in that pass. It fails for the containers that the
  loop visited before the throwing one: of three subscribers, the first has new mapped
  props and was notified when the mapper of the second throws.
\<close>

theorem C4_counterexample:
  "mappedOf threeMounted =
     [(''x'', Some [(''global'', currentGlobal loadedState)]),
      (''y'', Some [(''ready'', JBool False)]),
      (''z'', Some [(''global'', currentGlobal loadedState)])] \<and>
   mappedOf (stateOf (tickEnd (stateOf (setUntypedGlobal exampleGlobal None threeMounted)))) =
     [(''x'', Some [(''global'', exampleGlobal)]),
      (''y'', Some [(''ready'', JBool False)]),
      (''z'', Some [(''global'', currentGlobal loadedState)])] \<and>
   drop (length (history threeMounted))
     (history (stateOf (tickEnd (stateOf (setUntypedGlobal exampleGlobal None threeMounted))))) =
     [MapperCalled ''x'' exampleGlobal, Notified 1,
      MapperCalled ''y'' exampleGlobal, Reported (Thrown (JStr ''boom''))]"
  by (simp add: mappedOf_def threeMounted_def loadedState_def initial_def
      TeactNContainer_def exampleMapper_def failingMapper_def handleError_def exampleGlobal_def
      setUntypedGlobal_def Let_def runCallbacksThrottled_def throttleWithTickEnd_def
      tickEnd_def runCallbacks_def updateContainers_def visitContainer_def
      activateContainer_def objectKeys_def arePropsShallowEqual_def)

text \<open>
  Claim C4, amended: when the loop of a pass reaches an active container whose mapper
  throws, the pass ends there and does not re-raise: the error is reported, and it is
  the only report of the pass; the throwing container keeps its mapped props; the
  containers after it are left as they were, and no call is made for them; the
  containers before it are as the loop over them alone leaves them, notified where
  their props changed.
\<close>

theorem C4_fail_fast:
  assumes "containers s = before @ (key, c) # after"
    and "reaches (currentGlobal s) (containers s) (length before)"
    and "activateContainer c (currentGlobal s) (ownProps c) = (Inr active, c1)"
    and "truthy active"
    and "mapStateToProps c (currentGlobal s) (ownProps c) = Inl err"
    and "updateLoop (currentGlobal s) before = (before', evs, raised)"
  shows "updateContainers s =
      Done (s\<lparr> containers := before' @ (key, c1) # after,
              history := history s @ evs @ [MapperCalled key (currentGlobal s), Reported err] \<rparr>)
    \<and> reportsOf (evs @ [MapperCalled key (currentGlobal s), Reported err]) = [err]
    \<and> mappedProps c1 = mappedProps c
    \<and> length before' = length before"
proof -
  from visitContainer_threw [OF assms(3,4,5)]
  have v: "visitContainer (currentGlobal s) key c =
      Returned c1 [MapperCalled key (currentGlobal s), Reported err]" .
  from assms(1,2)
  have r: "reaches (currentGlobal s) (before @ (key, c) # after) (length before)" by simp
  from updateLoop_prefix [OF r assms(6)] v
  have pre: "reportsOf evs = []" "length before' = length before"
    and loop: "updateLoop (currentGlobal s) (before @ (key, c) # after) =
      (before' @ (key, c1) # after,
       evs @ [MapperCalled key (currentGlobal s), Reported err], None)"
    by simp_all
  from loop assms(1)
  have "updateLoop (currentGlobal s) (containers s) =
      (before' @ (key, c1) # after,
       evs @ [MapperCalled key (currentGlobal s), Reported err], None)" by simp
  from updateContainers_loop [OF this]
  have "updateContainers s =
      Done (s\<lparr> containers := before' @ (key, c1) # after,
              history := history s @ evs @ [MapperCalled key (currentGlobal s), Reported err] \<rparr>)"
    by simp
  moreover from visitContainer_Returned [OF v] have "mappedProps c1 = mappedProps c" by simp
  ultimately show ?thesis using pre by (simp add: reportsOf_append)
qed

lemma pendingThree_simp:
  "pendingThree = loadedState\<lparr>
     currentGlobal := exampleGlobal,
     containers :=
       [(''x'', subscriber exampleMapper ''X'' 1 [(''global'', currentGlobal loadedState)]),
        (''y'', subscriber failingMapper ''Y'' 2 [(''ready'', JBool False)]),
        (''z'', subscriber exampleMapper ''Z'' 3 [(''global'', currentGlobal loadedState)])],
     tickEndQueue := [RunCallbacks],
     history := [MapperCalled ''x'' (currentGlobal loadedState),
       MapperCalled ''y'' (currentGlobal loadedState),
       MapperCalled ''z'' (currentGlobal loadedState)] \<rparr>"
  by (simp add: pendingThree_def threeMounted_def subscriber_def loadedState_def initial_def
      TeactNContainer_def exampleMapper_def failingMapper_def
      exampleGlobal_def setUntypedGlobal_def Let_def runCallbacksThrottled_def
      throttleWithTickEnd_def)

theorem C4_witness:
  "containers pendingThree =
     [(''x'', subscriber exampleMapper ''X'' 1 [(''global'', currentGlobal loadedState)])] @
     (''y'', subscriber failingMapper ''Y'' 2 [(''ready'', JBool False)]) #
     [(''z'', subscriber exampleMapper ''Z'' 3 [(''global'', currentGlobal loadedState)])] \<and>
   reaches (currentGlobal pendingThree) (containers pendingThree) 1 \<and>
   mapStateToProps (subscriber failingMapper ''Y'' 2 [(''ready'', JBool False)])
     (currentGlobal pendingThree) [] = Inl (Thrown (JStr ''boom'')) \<and>
   updateContainers pendingThree =
     Done (pendingThree\<lparr>
       containers :=
         [(''x'', (subscriber exampleMapper ''X'' 1 [(''global'', currentGlobal loadedState)])
             \<lparr> mappedProps := Some [(''global'', exampleGlobal)], DEBUG_updates := 1 \<rparr>)] @
         (''y'', subscriber failingMapper ''Y'' 2 [(''ready'', JBool False)]) #
         [(''z'', subscriber exampleMapper ''Z'' 3 [(''global'', currentGlobal loadedState)])],
       history := history pendingThree @
         [MapperCalled ''x'' exampleGlobal, Notified 1] @
         [MapperCalled ''y'' (currentGlobal pendingThree), Reported (Thrown (JStr ''boom''))] \<rparr>)"
proof -
  let ?x = "subscriber exampleMapper ''X'' 1 [(''global'', currentGlobal loadedState)]"
  let ?y = "subscriber failingMapper ''Y'' 2 [(''ready'', JBool False)]"
  let ?z = "subscriber exampleMapper ''Z'' 3 [(''global'', currentGlobal loadedState)]"
  have h: "containers pendingThree = [(''x'', ?x)] @ (''y'', ?y) # [(''z'', ?z)]"
    "reaches (currentGlobal pendingThree) (containers pendingThree) (length [(''x'', ?x)])"
    "activateContainer ?y (currentGlobal pendingThree) (ownProps ?y) = (Inr (JBool True), ?y)"
    "truthy (JBool True)"
    "mapStateToProps ?y (currentGlobal pendingThree) (ownProps ?y) = Inl (Thrown (JStr ''boom''))"
    "updateLoop (currentGlobal pendingThree) [(''x'', ?x)] =
      ([(''x'', ?x\<lparr> mappedProps := Some [(''global'', exampleGlobal)], DEBUG_updates := 1 \<rparr>)],
       [MapperCalled ''x'' exampleGlobal, Notified 1], None)"
    by (simp_all add: pendingThree_simp subscriber_def activateContainer_def exampleMapper_def
        failingMapper_def visitContainer_def objectKeys_def arePropsShallowEqual_def
        loadedState_def initial_def exampleGlobal_def)
  have own: "ownProps ?y = []" by (simp add: subscriber_def)
  from C4_fail_fast [OF h] h own show ?thesis by simp
qed

section \<open>The dispatcher\<close>

lemma dispatchedOf_append: "dispatchedOf (xs @ ys) = dispatchedOf xs @ dispatchedOf ys"
  by (induction xs rule: dispatchedOf.induct) simp_all

lemma handlerCallsOf_append: "handlerCallsOf (xs @ ys) = handlerCallsOf xs @ handlerCallsOf ys"
  by (induction xs rule: handlerCallsOf.induct) simp_all

lemma passEvents_silent:
  "list_all passEvent evs \<Longrightarrow> dispatchedOf evs = [] \<and> handlerCallsOf evs = []"
  by (induction evs rule: dispatchedOf.induct) simp_all

lemma quiet_refl: "quiet s s"
  by (simp add: quiet_def)

lemma quiet_trans: "quiet s s' \<Longrightarrow> quiet s' s'' \<Longrightarrow> quiet s s''"
  by (auto simp: quiet_def)

lemma visitContainer_passEvents:
  "visitContainer g key c = Visited c' evs \<Longrightarrow> list_all passEvent evs"
  "visitContainer g key c = Returned c' evs \<Longrightarrow> list_all passEvent evs"
  "visitContainer g key c = Raised e c' evs \<Longrightarrow> list_all passEvent evs"
  by (auto simp: visitContainer_def handleError_def
      split: prod.splits sum.splits if_splits option.splits)

lemma updateLoop_passEvents:
  "updateLoop g cs = (cs', evs, raised) \<Longrightarrow> list_all passEvent evs"
proof (induction cs arbitrary: cs' evs raised)
  case Nil
  then show ?case by simp
next
  case (Cons kc cs)
  obtain key c where kc: "kc = (key, c)" by (cases kc)
  obtain cs2 ev2 r2 where rest: "updateLoop g cs = (cs2, ev2, r2)"
    by (cases "updateLoop g cs") auto
  from Cons.IH [OF rest] have "list_all passEvent ev2" .
  with Cons.prems kc rest visitContainer_passEvents [of g key c] show ?case
    by (cases "visitContainer g key c") auto
qed

lemma updateContainers_quiet: "quiet s (stateOf (updateContainers s))"
proof -
  obtain cs' evs raised
    where loop: "updateLoop (currentGlobal s) (containers s) = (cs', evs, raised)"
    by (cases "updateLoop (currentGlobal s) (containers s)") auto
  from updateContainers_loop [OF loop] updateLoop_passEvents [OF loop]
  show ?thesis by (cases raised) (auto simp: quiet_def)
qed

lemma callCallback_quiet: "quiet s (stateOf (callCallback cb s))"
  by (cases cb) (simp_all add: updateContainers_quiet, simp add: quiet_def record_event_def)

lemma forEachCallback_quiet: "quiet s (stateOf (forEachCallback cbs s))"
proof (induction cbs arbitrary: s)
  case Nil
  show ?case by (simp add: quiet_refl)
next
  case (Cons cb cbs)
  show ?case
  proof (cases "callCallback cb s")
    case (Done s')
    with callCallback_quiet [of s cb] have "quiet s s'" by simp
    with Cons.IH [of s'] Done show ?thesis by (auto intro: quiet_trans)
  next
    case (Threw e s')
    with callCallback_quiet [of s cb] show ?thesis by simp
  qed
qed

lemma runCallbacks_quiet: "quiet s (stateOf (runCallbacks s))"
proof -
  have "quiet s (s\<lparr> forceOnHeavyAnimation := False \<rparr>)" by (simp add: quiet_def)
  from quiet_trans [OF this forEachCallback_quiet]
  show ?thesis
    using forEachCallback_quiet [of s "callbacks s"]
    by (simp add: runCallbacks_def getIsHeavyAnimating_once_def) (simp add: quiet_def)
qed

lemma setUntypedGlobal_quiet: "quiet s (stateOf (setUntypedGlobal newGlobal options s))"
proof (cases "typeof newGlobal = TObject \<and> \<not> strictEq newGlobal (currentGlobal s)")
  case False
  then show ?thesis by (auto simp: setUntypedGlobal_def quiet_refl)
next
  case True
  define r1 where "r1 = (if DEBUG s then DEBUG_setGlobal newGlobal options s else Done s)"
  have q1: "quiet s (stateOf r1)"
    using DEBUG_setGlobal_cases [of newGlobal options s] by (auto simp: r1_def quiet_def)
  show ?thesis
  proof (cases r1)
    case (Threw e s1)
    with True q1 show ?thesis by (simp add: setUntypedGlobal_def r1_def)
  next
    case (Done s1)
    with q1 have q: "quiet s s1" by simp
    show ?thesis
    proof (cases "optional opt_forceSyncOnIOs options")
      case sync: True
      have "quiet s1 (s1\<lparr> currentGlobal := newGlobal, forceOnHeavyAnimation := True \<rparr>)"
        by (simp add: quiet_def)
      from quiet_trans [OF q quiet_trans [OF this runCallbacks_quiet]]
      show ?thesis using True Done sync by (simp add: setUntypedGlobal_def r1_def Let_def)
    next
      case False
      have "quiet s1 (runCallbacksThrottled
          (if optional opt_forceOnHeavyAnimation options
           then s1\<lparr> currentGlobal := newGlobal, forceOnHeavyAnimation := True \<rparr>
           else s1\<lparr> currentGlobal := newGlobal \<rparr>))"
        by (simp add: quiet_def runCallbacksThrottled_def throttleWithTickEnd_def)
      from quiet_trans [OF q this]
      show ?thesis using True Done False by (simp add: setUntypedGlobal_def r1_def Let_def)
    qed
  qed
qed

lemma getUntypedGlobal_quiet: "quiet s (snd (getUntypedGlobal s))"
  by (simp add: getUntypedGlobal_def quiet_def Let_def DEBUG_invalidateGlobalOnTickEnd_def
      throttleWithTickEnd_def)

lemma enqueue_simps:
  "actionQueue (enqueue name payload options s) = actionQueue s @ [(name, payload, options)]"
  "history (enqueue name payload options s) = history s @ [Dispatched name payload options]"
  "actionHandlers (enqueue name payload options s) = actionHandlers s"
  "DEBUG (enqueue name payload options s) = DEBUG s"
  "currentGlobal (enqueue name payload options s) = currentGlobal s"
  by (simp_all add: enqueue_def record_event_def)

text \<open>A dispatch while the queue is not empty only appends: no nested drain.\<close>

lemma handleAction_nested:
  "actionQueue s \<noteq> [] \<Longrightarrow>
   handleAction fuel name payload options s = Some (Done (enqueue name payload options s))"
  by (cases "actionQueue s") (simp_all add: Let_def enqueue_def record_event_def)

lemma callsWhileDraining_queue:
  "actionQueue s \<noteq> [] \<Longrightarrow> actionQueue (stateOf (callsWhileDraining calls s)) \<noteq> []"
proof (induction calls s rule: callsWhileDraining.induct)
  case (1 s)
  then show ?case by simp
next
  case (2 name payload options calls s)
  then show ?case by (simp add: enqueue_simps)
next
  case (3 newGlobal options calls s)
  from setUntypedGlobal_quiet [of s newGlobal options] 3(2)
  have "actionQueue (stateOf (setUntypedGlobal newGlobal options s)) \<noteq> []"
    by (simp add: quiet_def)
  with 3 show ?case by (cases "setUntypedGlobal newGlobal options s") auto
next
  case (4 calls s)
  from getUntypedGlobal_quiet [of s] 4(2)
  have "actionQueue (snd (getUntypedGlobal s)) \<noteq> []" by (simp add: quiet_def)
  with 4 show ?case by simp
qed

lemma runCalls_while_draining:
  "actionQueue s \<noteq> [] \<Longrightarrow> runCalls fuel calls s = Some (callsWhileDraining calls s)"
proof (induction calls s rule: callsWhileDraining.induct)
  case (1 s)
  then show ?case by simp
next
  case (2 name payload options calls s)
  then show ?case by (simp add: handleAction_nested enqueue_simps del: handleAction.simps)
next
  case (3 newGlobal options calls s)
  from setUntypedGlobal_quiet [of s newGlobal options] 3(2)
  have "actionQueue (stateOf (setUntypedGlobal newGlobal options s)) \<noteq> []"
    by (simp add: quiet_def)
  with 3 show ?case by (cases "setUntypedGlobal newGlobal options s") auto
next
  case (4 calls s)
  from getUntypedGlobal_quiet [of s] 4(2)
  have "actionQueue (snd (getUntypedGlobal s)) \<noteq> []" by (simp add: quiet_def)
  with 4 show ?case by simp
qed

lemma applyResult_source:
  "applyResult response options s =
    (if \<not> truthy response \<or> isThenable response then Done s
     else setUntypedGlobal response options s)"
  by (auto simp: applyResult_def noValue_def pendingResult_def)

lemma forEachHandler_in_order:
  "actionQueue s \<noteq> [] \<Longrightarrow>
   forEachHandler fuel name payload options i handlers s =
     Some (handlersInOrder name payload options i handlers s)"
proof (induction handlers arbitrary: i s)
  case Nil
  show ?case by simp
next
  case (Cons handler handlers)
  obtain live s0 where get: "getUntypedGlobal s = (live, s0)"
    by (cases "getUntypedGlobal s")
  then have src: "(if DEBUG s then getUntypedGlobal s else (currentGlobal s, s)) = (live, s0)"
    by (auto simp: getUntypedGlobal_def)
  define sR where "sR = record_event (HandlerCalled name i live payload) s0"
  from getUntypedGlobal_quiet [of s] get Cons.prems have "actionQueue s0 \<noteq> []"
    by (simp add: quiet_def)
  then have qR: "actionQueue sR \<noteq> []" by (simp add: sR_def record_event_def)
  note calls = runCalls_while_draining [OF qR, of fuel "fst (handler live payload)"]
  show ?case
  proof (cases "callsWhileDraining (fst (handler live payload)) sR")
    case (Threw e s1)
    with src get calls show ?thesis by (simp add: sR_def)
  next
    case (Done s1)
    from callsWhileDraining_queue [OF qR, of "fst (handler live payload)"] Done
    have q1: "actionQueue s1 \<noteq> []" by simp
    show ?thesis
    proof (cases "snd (handler live payload)")
      case (Throw e)
      with src get calls Done show ?thesis by (simp add: sR_def)
    next
      case (Return response)
      show ?thesis
      proof (cases "\<not> truthy response \<or> isThenable response")
        case True
        with src get calls Done Return Cons.IH [OF q1, of "Suc i"] show ?thesis
          by (simp add: sR_def applyResult_source)
      next
        case False
        show ?thesis
        proof (cases "setUntypedGlobal response options s1")
          case set: (Done s2)
          from setUntypedGlobal_quiet [of s1 response options] set q1
          have "actionQueue s2 \<noteq> []" by (simp add: quiet_def)
          from Cons.IH [OF this, of "Suc i"] src get calls Done Return False set
          show ?thesis by (simp add: sR_def applyResult_source)
        next
          case set: (Threw e s2)
          with src get calls Done Return False show ?thesis
            by (simp add: sR_def applyResult_source)
        qed
      qed
    qed
  qed
qed

lemma quiet_advanced: "quiet s s' \<Longrightarrow> advanced s s' []"
  by (auto simp: quiet_def advanced_def passEvents_silent)

lemma advanced_trans:
  "advanced s s' calls \<Longrightarrow> advanced s' s'' calls' \<Longrightarrow> advanced s s'' (calls @ calls')"
  by (auto simp: advanced_def dispatchedOf_append handlerCallsOf_append)

lemma advanced_trans_silent:
  "advanced s s' [] \<Longrightarrow> advanced s' s'' calls \<Longrightarrow> advanced s s'' calls"
  using advanced_trans [of s s' "[]" s'' calls] by simp

lemma enqueue_advanced: "advanced s (enqueue name payload options s) []"
  by (simp add: advanced_def enqueue_simps)

lemma callsWhileDraining_advanced: "advanced s (stateOf (callsWhileDraining calls s)) []"
proof (induction calls s rule: callsWhileDraining.induct)
  case (1 s)
  show ?case by (simp add: quiet_advanced quiet_refl)
next
  case (2 name payload options calls s)
  show ?case
  proof (cases "actionHandlers s name = None")
    case True
    then show ?thesis by (simp add: quiet_advanced quiet_refl)
  next
    case False
    from 2 [OF False]
    have "advanced (enqueue name payload options s)
        (stateOf (callsWhileDraining calls (enqueue name payload options s))) []" .
    from advanced_trans_silent [OF enqueue_advanced this] False show ?thesis by auto
  qed
next
  case (3 newGlobal options calls s)
  note first = quiet_advanced [OF setUntypedGlobal_quiet [of s newGlobal options]]
  show ?case
  proof (cases "setUntypedGlobal newGlobal options s")
    case (Done s')
    with first 3 [OF Done] advanced_trans_silent show ?thesis by fastforce
  next
    case (Threw e s')
    with first show ?thesis by simp
  qed
next
  case (4 calls s)
  from advanced_trans_silent [OF quiet_advanced [OF getUntypedGlobal_quiet] 4]
  show ?case by simp
qed

lemma handlersInOrder_advanced:
  "handlersInOrder name payload options i handlers s = Done s' \<Longrightarrow>
   advanced s s' (map (\<lambda>j. (name, j, payload)) [i..<i + length handlers])"
proof (induction handlers arbitrary: i s)
  case Nil
  then show ?case by (simp add: quiet_advanced quiet_refl)
next
  case (Cons handler handlers)
  obtain live s0 where get: "getUntypedGlobal s = (live, s0)"
    by (cases "getUntypedGlobal s")
  define sR where "sR = record_event (HandlerCalled name i live payload) s0"
  from quiet_advanced [OF getUntypedGlobal_quiet [of s]] get
  have a0: "advanced s s0 []" by simp
  have aR: "advanced s0 sR [(name, i, payload)]"
    by (simp add: advanced_def sR_def record_event_def)
  from Cons.prems get obtain s1 response s2
    where calls: "callsWhileDraining (fst (handler live payload)) sR = Done s1"
      and applied: "applyResult response options s1 = Done s2"
      and rest: "handlersInOrder name payload options (Suc i) handlers s2 = Done s'"
    by (auto simp: sR_def split: outcome.splits ending.splits)
  from callsWhileDraining_advanced [of sR "fst (handler live payload)"] calls
  have a1: "advanced sR s1 []" by simp
  have a2: "advanced s1 s2 []"
    using applied quiet_advanced [OF setUntypedGlobal_quiet [of s1 response options]]
    by (auto simp: applyResult_def quiet_advanced quiet_refl split: if_splits)
  from advanced_trans [OF advanced_trans_silent [OF a0 aR] advanced_trans_silent [OF a1 a2]]
  have "advanced s s2 [(name, i, payload)]" by simp
  from advanced_trans [OF this Cons.IH [OF rest]]
  have "advanced s s' ((name, i, payload) # map (\<lambda>j. (name, j, payload)) [Suc i..<Suc i + length handlers])"
    by simp
  then show ?case by (simp add: upt_rec)
qed

lemma drain_step:
  assumes "actionQueue s = (name, payload, options) # queued"
  shows "drain (Suc fuel) s =
    (case handlersInOrder name payload options 0 (handlersOf (actionHandlers s) name) s of
       Done s' \<Rightarrow> drain fuel (s'\<lparr> actionQueue := tl (actionQueue s') \<rparr>)
     | Threw e s' \<Rightarrow> Some (Threw e s'))"
proof -
  from assms have "actionQueue s \<noteq> []" by simp
  from forEachHandler_in_order [OF this]
  show ?thesis using assms
    by (simp add: handlersOf_def split: outcome.splits del: forEachHandler.simps)
qed

lemma drain_fifo:
  "drain fuel s = Some (Done s') \<Longrightarrow>
   actionQueue s' = [] \<and> actionHandlers s' = actionHandlers s \<and>
   (\<exists>new. history s' = history s @ new \<and>
      handlerCallsOf new =
        concat (map (callsFor (actionHandlers s)) (actionQueue s @ dispatchedOf new)))"
proof (induction fuel arbitrary: s)
  case 0
  then show ?case by simp
next
  case (Suc fuel)
  show ?case
  proof (cases "actionQueue s")
    case Nil
    with Suc.prems show ?thesis by auto
  next
    case (Cons item queued)
    obtain name payload options where item: "item = (name, payload, options)"
      by (cases item)
    with Cons have q: "actionQueue s = (name, payload, options) # queued" by simp
    from Suc.prems drain_step [OF q, of fuel] obtain s1
      where run: "handlersInOrder name payload options 0 (handlersOf (actionHandlers s) name) s =
          Done s1"
        and rest: "drain fuel (s1\<lparr> actionQueue := tl (actionQueue s1) \<rparr>) = Some (Done s')"
      by (auto split: outcome.splits)
    from handlersInOrder_advanced [OF run] obtain new1
      where h1: "history s1 = history s @ new1"
        and q1: "actionQueue s1 = actionQueue s @ dispatchedOf new1"
        and c1: "handlerCallsOf new1 = callsFor (actionHandlers s) (name, payload, options)"
        and t1: "actionHandlers s1 = actionHandlers s"
      by (auto simp: advanced_def callsFor_def)
    from Suc.IH [OF rest] t1 h1 q1 q obtain new2
      where e: "actionQueue s' = []" "actionHandlers s' = actionHandlers s"
        and h2: "history s' = history s @ new1 @ new2"
        and c2: "handlerCallsOf new2 =
          concat (map (callsFor (actionHandlers s)) (queued @ dispatchedOf new1 @ dispatchedOf new2))"
      by auto
    from c1 c2 q
    have "handlerCallsOf (new1 @ new2) =
        concat (map (callsFor (actionHandlers s)) (actionQueue s @ dispatchedOf (new1 @ new2)))"
      by (simp add: handlerCallsOf_append dispatchedOf_append)
    with e h2 show ?thesis by blast
  qed
qed

lemma handleAction_top:
  assumes "actionQueue s = []"
  shows "handleAction fuel name payload options s =
    (case drain fuel (enqueue name payload options s) of
       None \<Rightarrow> None
     | Some (Done s2) \<Rightarrow> Some (Done (s2\<lparr> actionQueue := [] \<rparr>))
     | Some (Threw e s2) \<Rightarrow> Some (Threw e (s2\<lparr> actionQueue := [] \<rparr>)))"
  using assms by (simp add: Let_def enqueue_def record_event_def)

declare handleAction.simps [simp del]

lemma dispatchState_simp:
  "dispatchState = loadedState\<lparr> actionHandlers :=
     (\<lambda>name. None)(''A'' \<mapsto> [firstOfA, secondOfA], ''B'' \<mapsto> [handlerOfB],
       ''fail'' \<mapsto> [failing]) \<rparr>"
  by (simp add: dispatchState_def addUntypedActionHandler_def loadedState_def initial_def)

lemma dispatch_A_eval:
  "handleAction (Suc (Suc (Suc 0))) ''A'' (JNum 1) None dispatchState =
     Some (Done (dispatchState\<lparr>
       currentGlobal := secondGlobal,
       tickEndQueue := [RunCallbacks],
       history :=
         [Dispatched ''A'' (JNum 1) None,
          HandlerCalled ''A'' 0 (currentGlobal loadedState) (JNum 1),
          Dispatched ''B'' (JStr ''from A'') None,
          HandlerCalled ''A'' 1 (currentGlobal loadedState) (JNum 1),
          HandlerCalled ''B'' 0 secondGlobal (JStr ''from A'')] \<rparr>))"
  by (simp add: handleAction.simps dispatchState_simp loadedState_def initial_def Let_def
      record_event_def firstOfA_def secondOfA_def handlerOfB_def secondGlobal_def
      isThenable_def setUntypedGlobal_def runCallbacksThrottled_def throttleWithTickEnd_def)




section \<open>Invariants of the reachable states\<close>

lemma getUntypedGlobal_typeof:
  "typeof (currentGlobal s) = TObject \<Longrightarrow>
   typeof (currentGlobal (snd (getUntypedGlobal s))) = TObject"
  by (simp add: getUntypedGlobal_def Let_def DEBUG_invalidateGlobalOnTickEnd_def
      throttleWithTickEnd_def)

lemma callsWhileDraining_typeof:
  "typeof (currentGlobal s) = TObject \<Longrightarrow>
   typeof (currentGlobal (stateOf (callsWhileDraining calls s))) = TObject"
proof (induction calls s rule: callsWhileDraining.induct)
  case (1 s)
  then show ?case by simp
next
  case (2 name payload options calls s)
  then show ?case by (auto simp: enqueue_simps)
next
  case (3 newGlobal options calls s)
  from setUntypedGlobal_typeof [OF 3(2), of newGlobal options] 3(1)
  show ?case by (cases "setUntypedGlobal newGlobal options s") auto
next
  case (4 calls s)
  from 4(1) [OF getUntypedGlobal_typeof [OF 4(2)]] show ?case by simp
qed

lemma applyResult_typeof:
  "typeof (currentGlobal s) = TObject \<Longrightarrow>
   typeof (currentGlobal (stateOf (applyResult response options s))) = TObject"
  by (simp add: applyResult_def setUntypedGlobal_typeof)

lemma handlersInOrder_typeof:
  "typeof (currentGlobal s) = TObject \<Longrightarrow>
   typeof (currentGlobal (stateOf (handlersInOrder name payload options i handlers s))) = TObject"
proof (induction handlers arbitrary: i s)
  case Nil
  then show ?case by simp
next
  case (Cons handler handlers)
  obtain live s0 where get: "getUntypedGlobal s = (live, s0)"
    by (cases "getUntypedGlobal s")
  define sR where "sR = record_event (HandlerCalled name i live payload) s0"
  from getUntypedGlobal_typeof [OF Cons.prems] get
  have tR: "typeof (currentGlobal sR) = TObject" by (simp add: sR_def record_event_def)
  note t1 = callsWhileDraining_typeof [OF tR, of "fst (handler live payload)"]
  show ?case
  proof (cases "callsWhileDraining (fst (handler live payload)) sR")
    case (Threw e s1)
    with get t1 show ?thesis by (simp add: sR_def)
  next
    case (Done s1)
    with t1 have t1': "typeof (currentGlobal s1) = TObject" by simp
    show ?thesis
    proof (cases "snd (handler live payload)")
      case (Throw e)
      with get Done t1' show ?thesis by (simp add: sR_def)
    next
      case (Return response)
      note t2 = applyResult_typeof [OF t1', of response options]
      show ?thesis
      proof (cases "applyResult response options s1")
        case applied: (Done s2)
        with t2 have "typeof (currentGlobal s2) = TObject" by simp
        from Cons.IH [OF this, of "Suc i"] get Done Return applied show ?thesis
          by (simp add: sR_def)
      next
        case applied: (Threw e s2)
        with t2 get Done Return show ?thesis by (simp add: sR_def)
      qed
    qed
  qed
qed

lemma drain_typeof:
  "drain fuel s = Some out \<Longrightarrow> typeof (currentGlobal s) = TObject \<Longrightarrow>
   typeof (currentGlobal (stateOf out)) = TObject"
proof (induction fuel arbitrary: s)
  case 0
  then show ?case by simp
next
  case (Suc fuel)
  show ?case
  proof (cases "actionQueue s")
    case Nil
    with Suc.prems show ?thesis by auto
  next
    case (Cons item queued)
    obtain name payload options where "item = (name, payload, options)" by (cases item)
    with Cons have q: "actionQueue s = (name, payload, options) # queued" by simp
    note t = handlersInOrder_typeof [OF Suc.prems(2), of name payload options 0
        "handlersOf (actionHandlers s) name"]
    show ?thesis
    proof (cases "handlersInOrder name payload options 0 (handlersOf (actionHandlers s) name) s")
      case (Done s1)
      with t have "typeof (currentGlobal (s1\<lparr> actionQueue := tl (actionQueue s1) \<rparr>)) = TObject"
        by simp
      moreover from Suc.prems(1) drain_step [OF q, of fuel] Done
      have "drain fuel (s1\<lparr> actionQueue := tl (actionQueue s1) \<rparr>) = Some out" by simp
      ultimately show ?thesis using Suc.IH by blast
    next
      case (Threw e s1)
      with Suc.prems(1) drain_step [OF q, of fuel] t show ?thesis by auto
    qed
  qed
qed

lemma dispatch_settled:
  assumes "settled s" and "dispatch fuel name payload options s = Some out"
  shows "settled (stateOf out)"
proof (cases "actionHandlers s name = None")
  case True
  with assms show ?thesis by (auto simp: dispatch_def)
next
  case False
  from assms(1) have q: "actionQueue s = []" and t: "typeof (currentGlobal s) = TObject"
    by (simp_all add: settled_def)
  from t have t': "typeof (currentGlobal (enqueue name payload options s)) = TObject"
    by (simp add: enqueue_simps)
  from assms(2) False have "handleAction fuel name payload options s = Some out"
    by (simp add: dispatch_def)
  with handleAction_top [OF q, of fuel name payload options]
  obtain out' where d: "drain fuel (enqueue name payload options s) = Some out'"
    and o: "out = (case out' of Done s2 \<Rightarrow> Done (s2\<lparr> actionQueue := [] \<rparr>)
                   | Threw e s2 \<Rightarrow> Threw e (s2\<lparr> actionQueue := [] \<rparr>))"
    by (auto split: option.splits outcome.splits)
  from drain_typeof [OF d t'] o show ?thesis
    by (cases out') (simp_all add: settled_def)
qed

lemma TeactNContainer_settled:
  "settled s \<Longrightarrow>
   settled (stateOf (TeactNContainer mapper activation componentName key notify props s))"
  by (auto simp: TeactNContainer_def settled_def Let_def
      split: option.splits prod.splits sum.splits if_splits)

lemma runCallbacks_settled: "settled s \<Longrightarrow> settled (stateOf (runCallbacks s))"
  using runCallbacks_quiet [of s] runCallbacks_currentGlobal [of s]
  by (simp add: settled_def quiet_def)

lemma runThrottled_settled: "settled s \<Longrightarrow> settled (stateOf (runThrottled fn s))"
  by (cases fn) (simp_all add: runCallbacks_settled, simp add: settled_def mathRandom_def)

lemma forEachThrottled_settled: "settled s \<Longrightarrow> settled (stateOf (forEachThrottled fns s))"
proof (induction fns arbitrary: s)
  case Nil
  then show ?case by simp
next
  case (Cons fn fns)
  from runThrottled_settled [OF Cons.prems, of fn] Cons.IH show ?case
    by (cases "runThrottled fn s") auto
qed

lemma fold_throttle_settled: "settled s \<Longrightarrow> settled (fold throttleWithTickEnd fns s)"
proof (induction fns arbitrary: s)
  case Nil
  then show ?case by simp
next
  case (Cons fn fns)
  from Cons.prems have "settled (throttleWithTickEnd fn s)"
    by (simp add: settled_def throttleWithTickEnd_def)
  with Cons.IH show ?case by simp
qed

lemma reachable_settled: "reachable s \<Longrightarrow> settled s"
proof (induction rule: reachable.induct)
  case (loaded debug rnd)
  show ?case by (simp add: settled_def initial_def)
next
  case (setGlobal s newGlobal options)
  with setUntypedGlobal_quiet [of s newGlobal options]
    setUntypedGlobal_typeof [of s newGlobal options]
  show ?case by (simp add: settled_def quiet_def)
next
  case (getGlobal s)
  with getUntypedGlobal_quiet [of s] getUntypedGlobal_typeof [of s]
  show ?case by (simp add: settled_def quiet_def)
next
  case (forceOnce s)
  then show ?case by (simp add: settled_def forceOnHeavyAnimationOnce_def)
next
  case (addHandler s name handler)
  then show ?case by (simp add: settled_def addUntypedActionHandler_def Let_def)
next
  case (action s fuel name payload options out)
  then show ?case using dispatch_settled by blast
next
  case (addCb s n)
  then show ?case by (simp add: settled_def addCallback_def)
next
  case (removeCb s cb)
  then show ?case by (simp add: settled_def removeCallback_def)
next
  case (render s mapper activation componentName key notify props)
  then show ?case by (simp add: TeactNContainer_settled)
next
  case (unmount s key)
  then show ?case by (simp add: settled_def unmountContainer_def)
next
  case (tick s)
  then have "settled (s\<lparr> tickEndQueue := [] \<rparr>)" by (simp add: settled_def)
  then show ?case by (simp add: tickEnd_def forEachThrottled_settled)
next
  case (animationBegins s)
  then show ?case by (simp add: settled_def beginHeavyAnimation_def)
next
  case (animationEnds s)
  then have "settled (s\<lparr> isHeavyAnimating := False, onceIdle := [] \<rparr>)"
    by (simp add: settled_def)
  then show ?case by (simp add: endHeavyAnimation_def fold_throttle_settled)
qed

section \<open>The claims about the dispatcher\<close>

text \<open>
  Claim C2: a dispatch made while the queue is not empty, as every dispatch from inside
  a handler is, only appends its closure to the queue and returns: it starts no drain of
  its own. A dispatch made on the empty queue that completes leaves the queue empty,
  and the handler calls made during it are, for each action dispatched during it (itself
  first) in the order of dispatch, one call of each handler of that action in the order
  of registration: every handler of an action has run before the first handler of an
  action dispatched later, and each dispatched action's handlers ran exactly once.
\<close>

theorem C2_fifo_drain:
  "(actionQueue s \<noteq> [] \<longrightarrow>
      handleAction fuel name payload options s = Some (Done (enqueue name payload options s)))
   \<and> (actionQueue s = [] \<and> handleAction fuel name payload options s = Some (Done s') \<longrightarrow>
        actionQueue s' = [] \<and>
        take (length (history s)) (history s') = history s \<and>
        take 1 (dispatchedOf (drop (length (history s)) (history s'))) =
          [(name, payload, options)] \<and>
        handlerCallsOf (drop (length (history s)) (history s')) =
          concat (map (callsFor (actionHandlers s))
            (dispatchedOf (drop (length (history s)) (history s')))))"
proof (intro conjI impI)
  assume "actionQueue s \<noteq> []"
  then show "handleAction fuel name payload options s =
      Some (Done (enqueue name payload options s))"
    by (rule handleAction_nested)
next
  assume a: "actionQueue s = [] \<and> handleAction fuel name payload options s = Some (Done s')"
  with handleAction_top [of s fuel name payload options]
  obtain s2 where d: "drain fuel (enqueue name payload options s) = Some (Done s2)"
    and s': "s' = s2\<lparr> actionQueue := [] \<rparr>"
    by (auto split: option.splits outcome.splits)
  from drain_fifo [OF d] a obtain new
    where h: "history s2 = history s @ Dispatched name payload options # new"
      and c: "handlerCallsOf new =
        concat (map (callsFor (actionHandlers s)) ((name, payload, options) # dispatchedOf new))"
    by (auto simp: enqueue_simps)
  from h s' have drop: "drop (length (history s)) (history s') =
      Dispatched name payload options # new" by simp
  show "actionQueue s' = []" using s' by simp
  show "take (length (history s)) (history s') = history s" using h s' by simp
  show "take 1 (dispatchedOf (drop (length (history s)) (history s'))) =
      [(name, payload, options)]"
    unfolding drop by simp
  show "handlerCallsOf (drop (length (history s)) (history s')) =
      concat (map (callsFor (actionHandlers s))
        (dispatchedOf (drop (length (history s)) (history s'))))"
    unfolding drop using c by simp
qed

theorem C2_witness:
  "actionQueue dispatchState = [] \<and>
   handleAction (Suc (Suc (Suc 0))) ''A'' (JNum 1) None dispatchState = Some (Done afterDispatch) \<and>
   actionQueue afterDispatch = [] \<and>
   history afterDispatch =
     [Dispatched ''A'' (JNum 1) None,
      HandlerCalled ''A'' 0 (currentGlobal loadedState) (JNum 1),
      Dispatched ''B'' (JStr ''from A'') None,
      HandlerCalled ''A'' 1 (currentGlobal loadedState) (JNum 1),
      HandlerCalled ''B'' 0 secondGlobal (JStr ''from A'')] \<and>
   handlerCallsOf (drop (length (history dispatchState)) (history afterDispatch)) =
     [(''A'', 0, JNum 1), (''A'', 1, JNum 1), (''B'', 0, JStr ''from A'')]"
proof -
  have q: "actionQueue dispatchState = []"
    by (simp add: dispatchState_simp loadedState_def initial_def)
  have run: "handleAction (Suc (Suc (Suc 0))) ''A'' (JNum 1) None dispatchState =
      Some (Done afterDispatch)"
    unfolding afterDispatch_def dispatch_A_eval by simp
  have h: "history afterDispatch =
     [Dispatched ''A'' (JNum 1) None,
      HandlerCalled ''A'' 0 (currentGlobal loadedState) (JNum 1),
      Dispatched ''B'' (JStr ''from A'') None,
      HandlerCalled ''A'' 1 (currentGlobal loadedState) (JNum 1),
      HandlerCalled ''B'' 0 secondGlobal (JStr ''from A'')]"
    unfolding afterDispatch_def dispatch_A_eval by simp
  have h0: "history dispatchState = []"
    by (simp add: dispatchState_simp loadedState_def initial_def)
  from C2_fifo_drain [of dispatchState "Suc (Suc (Suc 0))" "''A''" "JNum 1" None afterDispatch]
    q run
  have "actionQueue afterDispatch = []" by blast
  with q run h h0 show ?thesis by simp
qed




lemma min_calls:
  "take n (map f [0..<k]) = map f [0..<min n k]"
  by (simp add: take_map min_def)











text \<open>
  Claim C3: whatever a dispatch made on the empty queue ends with, a return or a throw
  of one of its handlers, it leaves the queue empty, so that the next dispatch is the
  only one in the queue and drains its own action; and the queue is empty in every
  state the module can be in between two calls from outside.
\<close>

theorem C3_queue_reset:
  "(actionQueue s = [] \<and> dispatch fuel name payload options s = Some out \<longrightarrow>
      actionQueue (stateOf out) = [] \<and>
      handleAction fuel' name' payload' options' (stateOf out) =
        (case drain fuel' (enqueue name' payload' options' (stateOf out)) of
           None \<Rightarrow> None
         | Some (Done s2) \<Rightarrow> Some (Done (s2\<lparr> actionQueue := [] \<rparr>))
         | Some (Threw e s2) \<Rightarrow> Some (Threw e (s2\<lparr> actionQueue := [] \<rparr>))))
   \<and> (reachable s' \<longrightarrow> actionQueue s' = [])"
proof (intro conjI impI)
  assume a: "actionQueue s = [] \<and> dispatch fuel name payload options s = Some out"
  show empty: "actionQueue (stateOf out) = []"
  proof (cases "actionHandlers s name = None")
    case True
    with a show ?thesis by (auto simp: dispatch_def)
  next
    case False
    with a have "handleAction fuel name payload options s = Some out"
      by (simp add: dispatch_def)
    with a handleAction_top [of s fuel name payload options] show ?thesis
      by (auto split: option.splits outcome.splits)
  qed
  show "handleAction fuel' name' payload' options' (stateOf out) =
      (case drain fuel' (enqueue name' payload' options' (stateOf out)) of
         None \<Rightarrow> None
       | Some (Done s2) \<Rightarrow> Some (Done (s2\<lparr> actionQueue := [] \<rparr>))
       | Some (Threw e s2) \<Rightarrow> Some (Threw e (s2\<lparr> actionQueue := [] \<rparr>)))"
    by (rule handleAction_top [OF empty])
next
  assume "reachable s'"
  from reachable_settled [OF this] show "actionQueue s' = []" by (simp add: settled_def)
qed

lemma dispatch_fail_eval:
  "dispatch (Suc (Suc 0)) ''fail'' JNull None dispatchState =
     Some (Threw (Thrown (JStr ''boom'')) (dispatchState\<lparr>
       history :=
         [Dispatched ''fail'' JNull None,
          HandlerCalled ''fail'' 0 (currentGlobal loadedState) JNull,
          Dispatched ''B'' JNull None] \<rparr>))"
  by (simp add: dispatch_def handleAction.simps dispatchState_simp loadedState_def
      initial_def Let_def record_event_def failing_def)

lemma reachable_dispatchState: "reachable dispatchState"
  unfolding dispatchState_def loadedState_def
  by (intro reachable.addHandler reachable.loaded)

theorem C3_witness:
  "actionQueue dispatchState = [] \<and>
   dispatch (Suc (Suc 0)) ''fail'' JNull None dispatchState =
     Some (Threw (Thrown (JStr ''boom'')) afterFailure) \<and>
   dispatchedOf (history afterFailure) = [(''fail'', JNull, None), (''B'', JNull, None)] \<and>
   actionQueue afterFailure = [] \<and> reachable afterFailure \<and>
   handlerCallsOf (history (stateOf (the
       (dispatch (Suc (Suc 0)) ''B'' (JNum 2) None afterFailure)))) =
     [(''fail'', 0, JNull), (''B'', 0, JNum 2)]"
proof -
  have q: "actionQueue dispatchState = []"
    by (simp add: dispatchState_simp loadedState_def initial_def)
  have run: "dispatch (Suc (Suc 0)) ''fail'' JNull None dispatchState =
      Some (Threw (Thrown (JStr ''boom'')) afterFailure)"
    unfolding afterFailure_def dispatch_fail_eval by simp
  have after: "afterFailure = dispatchState\<lparr>
       history :=
         [Dispatched ''fail'' JNull None,
          HandlerCalled ''fail'' 0 (currentGlobal loadedState) JNull,
          Dispatched ''B'' JNull None] \<rparr>"
    unfolding afterFailure_def dispatch_fail_eval by simp
  from reachable.action [OF reachable_dispatchState run]
  have r: "reachable afterFailure" by simp
  from C3_queue_reset [of dispatchState "Suc (Suc 0)" "''fail''" JNull None
      "Threw (Thrown (JStr ''boom'')) afterFailure"] q run
  have empty: "actionQueue afterFailure = []" by simp
  have d: "dispatchedOf (history afterFailure) = [(''fail'', JNull, None), (''B'', JNull, None)]"
    by (simp add: after)
  have "handlerCallsOf (history (stateOf (the
       (dispatch (Suc (Suc 0)) ''B'' (JNum 2) None afterFailure)))) =
     [(''fail'', 0, JNull), (''B'', 0, JNum 2)]"
    by (simp add: after dispatch_def handleAction.simps dispatchState_simp loadedState_def
        initial_def Let_def record_event_def handlerOfB_def)
  with q run d empty r show ?thesis by blast
qed

text \<open>
  Claim C9, as stated: a call with a non-object argument is a total no-op, so the live
  state is always an object. It fails for \<^verbatim>\<open>null\<close>, which is not an object and for which
  \<^verbatim>\<open>typeof\<close> answers \<^verbatim>\<open>'object'\<close>: the call makes \<^verbatim>\<open>null\<close> the live state and schedules a
  pass.
\<close>

theorem C9_counterexample:
  "\<not> isObject JNull \<and>
   currentGlobal (stateOf (setUntypedGlobal JNull None loadedState)) = JNull \<and>
   tickEndQueue loadedState = [] \<and>
   tickEndQueue (stateOf (setUntypedGlobal JNull None loadedState)) = [RunCallbacks] \<and>
   reachable (stateOf (setUntypedGlobal JNull None loadedState)) \<and>
   \<not> isObject (currentGlobal (stateOf (setUntypedGlobal JNull None loadedState)))"
proof -
  have "reachable (stateOf (setUntypedGlobal JNull None loadedState))"
    unfolding loadedState_def by (intro reachable.setGlobal reachable.loaded)
  then show ?thesis
    by (simp add: loadedState_def initial_def setUntypedGlobal_def Let_def
        runCallbacksThrottled_def throttleWithTickEnd_def)
qed

text \<open>
  Claim C9, amended: a call of \<^verbatim>\<open>setUntypedGlobal\<close> with an argument for which \<^verbatim>\<open>typeof\<close> does
  not answer \<^verbatim>\<open>'object'\<close> (\<^verbatim>\<open>undefined\<close>, a number, a string, a function) is a total no-op:
  the state of the module is the same afterwards. So in every reachable state \<^verbatim>\<open>typeof\<close>
  answers \<^verbatim>\<open>'object'\<close> for the live state: it is an object or \<^verbatim>\<open>null\<close>.
\<close>

theorem C9_typeof_object:
  "(typeof newGlobal \<noteq> TObject \<longrightarrow> setUntypedGlobal newGlobal options s = Done s)
   \<and> (reachable s' \<longrightarrow> typeof (currentGlobal s') = TObject)"
proof (intro conjI impI)
  assume "typeof newGlobal \<noteq> TObject"
  then show "setUntypedGlobal newGlobal options s = Done s"
    by (rule setUntypedGlobal_not_object)
next
  assume "reachable s'"
  from reachable_settled [OF this] show "typeof (currentGlobal s') = TObject"
    by (simp add: settled_def)
qed

theorem C9_witness:
  "typeof JUndefined \<noteq> TObject \<and>
   setUntypedGlobal JUndefined (Some urgentOptions) calmBusyState = Done calmBusyState \<and>
   reachable afterFailure \<and> typeof (currentGlobal afterFailure) = TObject"
proof -
  have run: "dispatch (Suc (Suc 0)) ''fail'' JNull None dispatchState =
      Some (Threw (Thrown (JStr ''boom'')) afterFailure)"
    unfolding afterFailure_def dispatch_fail_eval by simp
  from reachable.action [OF reachable_dispatchState run]
  have r: "reachable afterFailure" by simp
  have t: "typeof JUndefined \<noteq> TObject" by simp
  from C9_typeof_object [of JUndefined "Some urgentOptions" calmBusyState afterFailure] t r
  show ?thesis by simp
qed

section \<open>The heavy-animation gate\<close>






























end
